theory Spec2Isabelle
  imports Main
begin

section \<open>Python strings\<close>

text \<open>
  A Python \<open>str\<close> is a sequence of Unicode code points, so it is modelled as a list of
  naturals: slicing (\<open>name[:10]\<close>) and \<open>len\<close> count code points, not bytes.  ASCII
  literals of the source are written through \<open>ascii\<close>; the Japanese literals are
  spelled out as lists of code points.
\<close>

type_synonym pystr = "nat list"

definition ascii :: "string \<Rightarrow> pystr" where
  "ascii s = map of_char s"

abbreviation SLASH :: nat where
  "SLASH \<equiv> 47"

text \<open>\<open>sub in s\<close>: the substring test.\<close>

fun py_in :: "pystr \<Rightarrow> pystr \<Rightarrow> bool" where
  "py_in sub [] = (sub = [])"
| "py_in sub (c # cs) = (take (length sub) (c # cs) = sub \<or> py_in sub cs)"

text \<open>
  \<open>s.replace(old, new)\<close>: every non-overlapping occurrence of \<open>old\<close>, scanning from the
  left.  With an empty \<open>old\<close> Python puts \<open>new\<close> before every character and at the end.
\<close>

function py_replace :: "pystr \<Rightarrow> pystr \<Rightarrow> pystr \<Rightarrow> pystr" where
  "py_replace s old new =
     (if old = [] then new @ concat (map (\<lambda>c. c # new) s)
      else if s = [] then []
      else if take (length old) s = old then new @ py_replace (drop (length old) s) old new
      else hd s # py_replace (tl s) old new)"
  by pat_completeness auto
termination
  by (relation "measure (\<lambda>(s, old, new). length s)") auto

declare py_replace.simps [simp del]

text \<open>\<open>s.strip(chars)\<close> and \<open>s.rstrip(chars)\<close> for an explicit set of characters.\<close>

definition py_rstrip_chars :: "pystr \<Rightarrow> pystr \<Rightarrow> pystr" where
  "py_rstrip_chars chars s = rev (dropWhile (\<lambda>c. c \<in> set chars) (rev s))"

definition py_strip_chars :: "pystr \<Rightarrow> pystr \<Rightarrow> pystr" where
  "py_strip_chars chars s = py_rstrip_chars chars (dropWhile (\<lambda>c. c \<in> set chars) s)"

text \<open>
  \<open>s.strip()\<close> removes the characters for which \<open>str.isspace\<close> holds: the ASCII
  controls 9..13 and 28..31, the space, and the Unicode separators.
\<close>

definition py_isspace :: "nat \<Rightarrow> bool" where
  "py_isspace c \<longleftrightarrow>
     (9 \<le> c \<and> c \<le> 13) \<or> (28 \<le> c \<and> c \<le> 32) \<or> c = 133 \<or> c = 160 \<or> c = 5760 \<or>
     (8192 \<le> c \<and> c \<le> 8202) \<or> c = 8232 \<or> c = 8233 \<or> c = 8239 \<or> c = 8287 \<or> c = 12288"

definition py_strip :: "pystr \<Rightarrow> pystr" where
  "py_strip s = rev (dropWhile py_isspace (rev (dropWhile py_isspace s)))"

text \<open>
  \<open>s.split(sep)\<close> for a separator of one character (the only use in the source is
  \<open>split("/")\<close>): the result is never empty, and empty segments are kept.
\<close>

fun py_split :: "nat \<Rightarrow> pystr \<Rightarrow> pystr list" where
  "py_split sep [] = [[]]"
| "py_split sep (c # cs) =
     (if c = sep then [] # py_split sep cs
      else (case py_split sep cs of
              p # ps \<Rightarrow> (c # p) # ps
            | [] \<Rightarrow> [[c]]))"

section \<open>Exceptions and settings\<close>

text \<open>
  An exception is its class and the text \<open>str(e)\<close>.  A function of the source that can
  raise returns \<open>exn + 'a\<close>, with \<open>Inl\<close> for the exception.
\<close>

datatype exn_class =
  RequestException | AttributeError | TypeError | ValueError | OSError | CsvError |
  UnicodeEncodeError

type_synonym exn = "exn_class \<times> pystr"

text \<open>
  The settings object \<open>app_settings\<close>: the two addresses the modelled functions read.
  The waiting times only feed \<open>time.sleep\<close> and are left out.
\<close>

record settings =
  base_url :: pystr
  detail_base_url :: pystr

definition DEFAULT_SETTINGS :: settings where
  "DEFAULT_SETTINGS =
     \<lparr> base_url = ascii ''https://www.info.pmda.go.jp/ysearch/tenpulist.jsp?DATE='',
       detail_base_url = ascii ''https://www.info.pmda.go.jp'' \<rparr>"

definition YGO_PACK_PREFIX :: pystr where
  "YGO_PACK_PREFIX = ascii ''ygo/pack''"

definition YGO_PDF_PREFIX :: pystr where
  "YGO_PDF_PREFIX = ascii ''ygo/pdf''"

section \<open>URL derivation\<close>

text \<open>
  \<open>convert_detail_url_to_pdf\<close>.  The unpacking \<open>ygo, pack = YGO_PACK_PREFIX.split("/")\<close>
  raises \<open>ValueError\<close> unless the split has exactly two parts.
\<close>

definition convert_detail_url_to_pdf :: "settings \<Rightarrow> pystr \<Rightarrow> exn + pystr" where
  "convert_detail_url_to_pdf cfg detail_url =
     (if detail_url = [] then Inr []
      else
        let path = py_replace detail_url (detail_base_url cfg) [];
            parts = py_split SLASH (py_strip_chars [SLASH] path)
        in (case py_split SLASH YGO_PACK_PREFIX of
              [ygo, pack] \<Rightarrow>
                if 4 \<le> length parts \<and> parts ! 0 = ygo \<and> parts ! 1 = pack then
                  let company_id = parts ! 2;
                      doc_id = parts ! 3
                  in Inr (detail_base_url cfg @ [SLASH] @ YGO_PDF_PREFIX @ [SLASH] @
                          company_id @ ascii ''_'' @ doc_id @ [SLASH])
                else Inr []
            | _ \<Rightarrow> Inl (ValueError, ascii ''not enough values to unpack'')))"

text \<open>\<open>convert_detail_url_to_body_url\<close>, with the same decomposition.\<close>

definition convert_detail_url_to_body_url :: "settings \<Rightarrow> pystr \<Rightarrow> exn + pystr" where
  "convert_detail_url_to_body_url cfg detail_url =
     (if detail_url = [] then Inr []
      else
        let path = py_replace detail_url (detail_base_url cfg) [];
            parts = py_split SLASH (py_strip_chars [SLASH] path)
        in (case py_split SLASH YGO_PACK_PREFIX of
              [ygo, pack] \<Rightarrow>
                if 4 \<le> length parts \<and> parts ! 0 = ygo \<and> parts ! 1 = pack then
                  let doc_id = parts ! 3
                  in Inr (py_rstrip_chars [SLASH] detail_url @ [SLASH] @ doc_id @
                          ascii ''?view=body'')
                else Inr []
            | _ \<Rightarrow> Inl (ValueError, ascii ''not enough values to unpack'')))"

text \<open>
  The specification's wording of \<open>detailToPdf\<close>, for comparison with the source: it
  strips the base address as a \<^emph>\<open>prefix\<close> of the input, where the source removes every
  occurrence of it.
\<close>

definition strip_prefix_spec :: "pystr \<Rightarrow> pystr \<Rightarrow> pystr" where
  "strip_prefix_spec base s = (if take (length base) s = base then drop (length base) s else s)"

definition detailToPdf_spec :: "pystr \<Rightarrow> pystr \<Rightarrow> pystr" where
  "detailToPdf_spec base detailUrl =
     (let segment = py_split SLASH (py_strip_chars [SLASH] (strip_prefix_spec base detailUrl))
      in if 4 \<le> length segment \<and> segment ! 0 = ascii ''ygo'' \<and> segment ! 1 = ascii ''pack''
         then base @ ascii ''/ygo/pdf/'' @ segment ! 2 @ ascii ''_'' @ segment ! 3 @ ascii ''/''
         else [])"

section \<open>The \<open>csv\<close> module and text files\<close>

text \<open>
  The source writes and reads its tables with Python's \<open>csv\<close> module in the default
  (\<open>excel\<close>) dialect: delimiter \<open>,\<close>, quote character \<open>"\<close> doubled inside a quoted
  field, minimal quoting, line terminator \<open>\r\n\<close>, no escape character, not strict.
  The model follows the writer and the reader's state machine of CPython.
\<close>

abbreviation COMMA :: nat where
  "COMMA \<equiv> 44"

abbreviation DQUOTE :: nat where
  "DQUOTE \<equiv> 34"

abbreviation CR :: nat where
  "CR \<equiv> 13"

abbreviation LF :: nat where
  "LF \<equiv> 10"

abbreviation BOM :: nat where
  "BOM \<equiv> 65279"

subsection \<open>Writer\<close>

definition csv_needs_quotes :: "pystr \<Rightarrow> bool" where
  "csv_needs_quotes f \<longleftrightarrow> (\<exists>c \<in> set f. c = COMMA \<or> c = DQUOTE \<or> c = CR \<or> c = LF)"

definition csv_double_quotes :: "pystr \<Rightarrow> pystr" where
  "csv_double_quotes f = concat (map (\<lambda>c. if c = DQUOTE then [DQUOTE, DQUOTE] else [c]) f)"

definition csv_write_field :: "pystr \<Rightarrow> pystr" where
  "csv_write_field f =
     (if csv_needs_quotes f then [DQUOTE] @ csv_double_quotes f @ [DQUOTE] else f)"

fun csv_join :: "pystr list \<Rightarrow> pystr" where
  "csv_join [] = []"
| "csv_join [f] = f"
| "csv_join (f # g # fs) = f @ [COMMA] @ csv_join (g # fs)"

text \<open>\<open>writer.writerow\<close>: a row whose only field is empty is written as \<open>""\<close>.\<close>

definition csv_writerow :: "pystr list \<Rightarrow> pystr" where
  "csv_writerow row =
     (if row = [[]] then [DQUOTE, DQUOTE] else csv_join (map csv_write_field row)) @ [CR, LF]"

subsection \<open>Text files\<close>

text \<open>
  A file holds code points.  Opened for reading with \<open>encoding='utf-8-sig'\<close> and the
  default \<open>newline=None\<close>, a leading byte order mark is dropped, \<open>\r\n\<close> and a lone \<open>\r\<close>
  are read as \<open>\n\<close>, and iterating the file yields its lines, each with its \<open>\n\<close>.
\<close>

definition decode_utf_8_sig :: "pystr \<Rightarrow> pystr" where
  "decode_utf_8_sig content = (case content of c # cs \<Rightarrow> if c = BOM then cs else content | [] \<Rightarrow> [])"

fun universal_newlines :: "pystr \<Rightarrow> pystr" where
  "universal_newlines [] = []"
| "universal_newlines [c] = [if c = CR then LF else c]"
| "universal_newlines (c # d # cs) =
     (if c = CR \<and> d = LF then LF # universal_newlines cs
      else if c = CR then LF # universal_newlines (d # cs)
      else c # universal_newlines (d # cs))"

fun file_lines :: "pystr \<Rightarrow> pystr list" where
  "file_lines [] = []"
| "file_lines (c # cs) =
     (if c = LF then [LF] # file_lines cs
      else (case file_lines cs of
              [] \<Rightarrow> [[c]]
            | l # ls \<Rightarrow> (c # l) # ls))"

subsection \<open>Reader\<close>

datatype parser_state =
  START_RECORD | START_FIELD | IN_FIELD | IN_QUOTED_FIELD | QUOTE_IN_QUOTED_FIELD | EAT_CRNL

record reader =
  pstate :: parser_state
  cur_field :: pystr
  row_fields :: "pystr list"

definition parse_reset :: reader where
  "parse_reset = \<lparr> pstate = START_RECORD, cur_field = [], row_fields = [] \<rparr>"

definition parse_save_field :: "reader \<Rightarrow> reader" where
  "parse_save_field r = r\<lparr> row_fields := row_fields r @ [cur_field r], cur_field := [] \<rparr>"

text \<open>\<open>limit\<close> is \<open>csv.field_size_limit()\<close>, 131072 unless changed.\<close>

definition parse_add_char :: "nat \<Rightarrow> reader \<Rightarrow> nat \<Rightarrow> exn + reader" where
  "parse_add_char limit r c =
     (if limit \<le> length (cur_field r) then Inl (CsvError, ascii ''field larger than field limit'')
      else Inr (r\<lparr> cur_field := cur_field r @ [c] \<rparr>))"

definition field_size_limit :: nat where
  "field_size_limit = 131072"

text \<open>
  One step of the state machine; \<open>None\<close> is the end-of-line signal the reader sends
  after the characters of each line.  \<open>start_field_char\<close> is the case \<open>START_FIELD\<close> on
  a character, into which the case \<open>START_RECORD\<close> falls through.
\<close>

definition start_field_char :: "nat \<Rightarrow> reader \<Rightarrow> nat \<Rightarrow> exn + reader" where
  "start_field_char limit r c =
     (if c = LF \<or> c = CR then Inr ((parse_save_field r)\<lparr> pstate := EAT_CRNL \<rparr>)
      else if c = DQUOTE then Inr (r\<lparr> pstate := IN_QUOTED_FIELD \<rparr>)
      else if c = COMMA then Inr (parse_save_field r)
      else map_sum id (\<lambda>r'. r'\<lparr> pstate := IN_FIELD \<rparr>) (parse_add_char limit r c))"

fun parse_process_char :: "nat \<Rightarrow> reader \<Rightarrow> nat option \<Rightarrow> exn + reader" where
  "parse_process_char limit r None =
     (case pstate r of
        START_RECORD \<Rightarrow> Inr r
      | START_FIELD \<Rightarrow> Inr ((parse_save_field r)\<lparr> pstate := START_RECORD \<rparr>)
      | IN_FIELD \<Rightarrow> Inr ((parse_save_field r)\<lparr> pstate := START_RECORD \<rparr>)
      | IN_QUOTED_FIELD \<Rightarrow> Inr r
      | QUOTE_IN_QUOTED_FIELD \<Rightarrow> Inr ((parse_save_field r)\<lparr> pstate := START_RECORD \<rparr>)
      | EAT_CRNL \<Rightarrow> Inr (r\<lparr> pstate := START_RECORD \<rparr>))"
| "parse_process_char limit r (Some c) =
     (case pstate r of
        START_RECORD \<Rightarrow>
          if c = LF \<or> c = CR then Inr (r\<lparr> pstate := EAT_CRNL \<rparr>)
          else start_field_char limit (r\<lparr> pstate := START_FIELD \<rparr>) c
      | START_FIELD \<Rightarrow> start_field_char limit r c
      | IN_FIELD \<Rightarrow>
          if c = LF \<or> c = CR then Inr ((parse_save_field r)\<lparr> pstate := EAT_CRNL \<rparr>)
          else if c = COMMA then Inr ((parse_save_field r)\<lparr> pstate := START_FIELD \<rparr>)
          else parse_add_char limit r c
      | IN_QUOTED_FIELD \<Rightarrow>
          if c = DQUOTE then Inr (r\<lparr> pstate := QUOTE_IN_QUOTED_FIELD \<rparr>)
          else parse_add_char limit r c
      | QUOTE_IN_QUOTED_FIELD \<Rightarrow>
          if c = DQUOTE then
            map_sum id (\<lambda>r'. r'\<lparr> pstate := IN_QUOTED_FIELD \<rparr>) (parse_add_char limit r c)
          else if c = COMMA then Inr ((parse_save_field r)\<lparr> pstate := START_FIELD \<rparr>)
          else if c = LF \<or> c = CR then Inr ((parse_save_field r)\<lparr> pstate := EAT_CRNL \<rparr>)
          else map_sum id (\<lambda>r'. r'\<lparr> pstate := IN_FIELD \<rparr>) (parse_add_char limit r c)
      | EAT_CRNL \<Rightarrow>
          if c = LF \<or> c = CR then Inr r
          else Inl (CsvError, ascii ''new-line character seen in unquoted field''))"

text \<open>
  \<open>feed_line\<close> sends the characters of one line.  \<open>csv_read\<close> is \<open>list(reader)\<close> over
  the lines of a file: after each line the end-of-line signal is sent, and a record is
  complete when the state is \<open>START_RECORD\<close> again (an empty line gives the record
  \<open>[]\<close>).  When the lines run out inside a record, the record is returned if a field has
  characters or a quoted field is open, and dropped otherwise.
\<close>

fun feed_line :: "nat \<Rightarrow> reader \<Rightarrow> pystr \<Rightarrow> exn + reader" where
  "feed_line limit r [] = Inr r"
| "feed_line limit r (c # cs) =
     (case parse_process_char limit r (Some c) of
        Inl e \<Rightarrow> Inl e
      | Inr r' \<Rightarrow> feed_line limit r' cs)"

fun csv_read :: "nat \<Rightarrow> reader \<Rightarrow> pystr list \<Rightarrow> exn + pystr list list" where
  "csv_read limit r [] =
     (if cur_field r \<noteq> [] \<or> pstate r = IN_QUOTED_FIELD
      then Inr [row_fields (parse_save_field r)] else Inr [])"
| "csv_read limit r (l # ls) =
     (case feed_line limit r l of
        Inl e \<Rightarrow> Inl e
      | Inr r1 \<Rightarrow>
          (case parse_process_char limit r1 None of
             Inl e \<Rightarrow> Inl e
           | Inr r2 \<Rightarrow>
               if pstate r2 = START_RECORD then
                 (case csv_read limit parse_reset ls of
                    Inl e \<Rightarrow> Inl e
                  | Inr rows \<Rightarrow> Inr (row_fields r2 # rows))
               else csv_read limit r2 ls))"

definition csv_reader :: "pystr list \<Rightarrow> exn + pystr list list" where
  "csv_reader lines = csv_read field_size_limit parse_reset lines"

subsection \<open>Dictionaries, \<open>DictReader\<close> and \<open>DictWriter\<close>\<close>

text \<open>
  A dictionary with string keys is an association list in insertion order; a value is
  a string or \<open>None\<close>.  \<open>dict_set\<close> is \<open>d[k] = v\<close> and \<open>dict_get d k default\<close> is
  \<open>d.get(k, default)\<close>.
\<close>

datatype pyval = PyNone | PyStr pystr

type_synonym pydict = "(pystr \<times> pyval) list"

fun dict_set :: "pystr \<Rightarrow> pyval \<Rightarrow> pydict \<Rightarrow> pydict" where
  "dict_set k v [] = [(k, v)]"
| "dict_set k v ((k', v') # d) = (if k' = k then (k, v) # d else (k', v') # dict_set k v d)"

definition dict_get :: "pydict \<Rightarrow> pystr \<Rightarrow> pyval \<Rightarrow> pyval" where
  "dict_get d k dflt = (case map_of d k of None \<Rightarrow> dflt | Some v \<Rightarrow> v)"

text \<open>Truth value of a string or \<open>None\<close>.\<close>

fun truthy :: "pyval \<Rightarrow> bool" where
  "truthy PyNone = False"
| "truthy (PyStr s) = (s \<noteq> [])"

text \<open>
  A row of \<open>DictReader\<close>: \<open>dict(zip(fieldnames, row))\<close>, then \<open>None\<close> under every field
  name the row is too short for.  (The fields a row has beyond the header go under the
  key \<open>None\<close>, which no lookup of the source reads; they are left out.)
\<close>

definition DictReader_row :: "pystr list \<Rightarrow> pystr list \<Rightarrow> pydict" where
  "DictReader_row fieldnames row =
     fold (\<lambda>k d. dict_set k PyNone d) (drop (length row) fieldnames)
       (fold (\<lambda>(k, v) d. dict_set k (PyStr v) d) (zip fieldnames row) [])"

text \<open>
  \<open>DictReader\<close> over the records of the reader: the first record is the header
  (\<open>fieldnames\<close> is \<open>None\<close> when there is no record at all), and empty records are
  skipped.
\<close>

definition DictReader :: "pystr list list \<Rightarrow> pystr list option \<times> pydict list" where
  "DictReader records =
     (case records of
        [] \<Rightarrow> (None, [])
      | h # rest \<Rightarrow> (Some h, map (DictReader_row h) (filter (\<lambda>r. r \<noteq> []) rest)))"

section \<open>The world outside the program\<close>

text \<open>
  The parsed listing page, as the calls of BeautifulSoup the source makes see it.  A page
  is the sequence of its \<open>h2\<close> and \<open>table\<close> elements in document order.  A table holds
  the result of \<open>find_all('tr')\<close>, each row the result of \<open>find_all('td')\<close>; of a cell
  the source reads \<open>get_text(strip=True)\<close> and its first \<open>a\<close> element, if any, with that
  element's stripped text and its \<open>href\<close> attribute, if any.
\<close>

record td_cell =
  cell_link :: "(pystr \<times> pystr option) option"
  cell_text :: pystr

datatype node = H2 pystr | Table "td_cell list list"

text \<open>
  The response to the streaming request of \<open>download_file\<close>: the status code, the
  chunks \<open>iter_content\<close> yields, and the exception it raises after them, if any.
\<close>

record response =
  status_code :: nat
  body_chunks :: "pystr list"
  body_error :: "exn option"

text \<open>
  The environment of a run.  The three pages answer \<open>requests.get\<close> (with the parse
  that follows it); of the body page only the two texts \<open>fetch_approval_number\<close>
  extracts are kept (the \<open>div\<close> after the certification heading, the \<open>div\<close> after the
  approval heading).  \<open>open_write_error\<close> is the exception opening a path for writing
  raises, if any.  \<open>cancel_at\<close> is the environment's cancel request: the flag
  \<open>is_running\<close> reads \<open>True\<close> at the reads before that many reads have been made, and
  \<open>False\<close> from then on; \<open>None\<close> means that nobody cancels.
\<close>

record env =
  listing_page :: "pystr \<Rightarrow> exn + node list"
  body_page :: "pystr \<Rightarrow> exn + (pystr option \<times> pystr option)"
  pdf_response :: "pystr \<Rightarrow> exn + response"
  open_write_error :: "pystr \<Rightarrow> exn option"
  cancel_at :: "nat option"

text \<open>
  A line of the log is the format string that produced it, with its arguments.
\<close>

datatype log_event =
    LogScrapeError exn
  | LogNumberFetching pystr
  | LogNumberError exn
  | LogCollecting nat nat pystr
  | LogCollected nat
  | LogSaved pystr
  | LogListLoading
  | LogListLoaded nat nat
  | LogListError exn
  | LogMatched nat nat
  | LogDownloadStart nat
  | LogDownloadRow nat nat pystr
  | LogSkipped
  | LogDone
  | LogFailed "pystr option"
  | LogInterrupted nat nat nat
  | LogAllDone
  | LogError exn

text \<open>
  The state a run changes: the files on disk, the number of reads of \<open>is_running\<close> so
  far, the addresses requested from the network so far, and the log.
\<close>

record state =
  files :: "pystr \<Rightarrow> pystr option"
  polls :: nat
  requests :: "pystr list"
  logged :: "log_event list"

definition read_is_running :: "env \<Rightarrow> state \<Rightarrow> bool \<times> state" where
  "read_is_running E s =
     ((case cancel_at E of None \<Rightarrow> True | Some c \<Rightarrow> polls s < c), s\<lparr> polls := Suc (polls s) \<rparr>)"

definition add_log :: "log_event \<Rightarrow> state \<Rightarrow> state" where
  "add_log ev s = s\<lparr> logged := logged s @ [ev] \<rparr>"

definition add_request :: "pystr \<Rightarrow> state \<Rightarrow> state" where
  "add_request url s = s\<lparr> requests := requests s @ [url] \<rparr>"

text \<open>
  \<open>os.path.join\<close> of two components (POSIX) and \<open>os.path.exists\<close>.
\<close>

definition os_path_join :: "pystr \<Rightarrow> pystr \<Rightarrow> pystr" where
  "os_path_join a b =
     (if b \<noteq> [] \<and> hd b = SLASH then b
      else if a = [] \<or> last a = SLASH then a @ b
      else a @ [SLASH] @ b)"

definition os_path_exists :: "state \<Rightarrow> pystr \<Rightarrow> bool" where
  "os_path_exists s path = (files s path \<noteq> None)"

text \<open>
  Reading a text file as the source opens it (\<open>open(path, 'r', encoding='utf-8-sig')\<close>):
  the lines of the file.
\<close>

definition open_read :: "state \<Rightarrow> pystr \<Rightarrow> exn + pystr list" where
  "open_read s path =
     (case files s path of
        None \<Rightarrow> Inl (OSError, ascii ''No such file or directory'')
      | Some content \<Rightarrow> Inr (file_lines (universal_newlines (decode_utf_8_sig content))))"

section \<open>Constants of the source\<close>

text \<open>
  The section names \<open>SECTION_LISTED\<close> (keisai) and \<open>SECTION_DELETED\<close> (sakujo), the
  heading markers (the section names followed by U+5206), the header-row sentinel
  (hanbaimei, which is also a column name), the prefix stripped from company names
  (seizo-hanbai and a full-width slash), and the nine column names of the table, in the
  order of \<open>save_results\<close>.
\<close>

definition SECTION_LISTED :: pystr where
  "SECTION_LISTED = [25522, 36617]"

definition SECTION_DELETED :: pystr where
  "SECTION_DELETED = [21066, 38500]"

definition LISTED_MARKER :: pystr where
  "LISTED_MARKER = [25522, 36617, 20998]"

definition DELETED_MARKER :: pystr where
  "DELETED_MARKER = [21066, 38500, 20998]"

definition KEY_DATE :: pystr where
  "KEY_DATE = [26085, 20184]"

definition KEY_SECTION :: pystr where
  "KEY_SECTION = [21306, 20998]"

definition KEY_PRODUCT :: pystr where
  "KEY_PRODUCT = [36009, 22770, 21517]"

definition KEY_COMPANY :: pystr where
  "KEY_COMPANY = [20225, 26989, 21517]"

definition KEY_REASON :: pystr where
  "KEY_REASON = [29702, 30001]"

definition KEY_APPROVAL :: pystr where
  "KEY_APPROVAL = [25215, 35469, 30058, 21495]"

definition KEY_CERTIFICATION :: pystr where
  "KEY_CERTIFICATION = [35469, 35388, 30058, 21495]"

definition KEY_DETAIL_URL :: pystr where
  "KEY_DETAIL_URL = [35443, 32048, 85, 82, 76]"

definition KEY_PDF_URL :: pystr where
  "KEY_PDF_URL = ascii ''PDF_URL''"

definition MAKER_PREFIX :: pystr where
  "MAKER_PREFIX = [35069, 36896, 36009, 22770, 65295]"

definition fieldnames :: "pystr list" where
  "fieldnames = [KEY_DATE, KEY_SECTION, KEY_PRODUCT, KEY_COMPANY, KEY_REASON, KEY_APPROVAL,
                 KEY_CERTIFICATION, KEY_DETAIL_URL, KEY_PDF_URL]"

definition PDF_EXTENSION :: pystr where
  "PDF_EXTENSION = ascii ''.pdf''"

definition CSV_FILENAME_PREFIX :: pystr where
  "CSV_FILENAME_PREFIX = ascii ''pmda_list_''"

text \<open>The characters \<open>\ / : * ? " < > |\<close> of \<open>invalid_chars\<close>.\<close>

definition invalid_chars :: pystr where
  "invalid_chars = [92, 47, 58, 42, 63, 34, 60, 62, 124]"

text \<open>
  \<open>str(n)\<close> of a natural number, and the prefix of the message for a status that is
  not 200 (\<open>HTTP\<close>, the katakana for "error", a colon and a space).
\<close>

fun str_nat :: "nat \<Rightarrow> pystr" where
  "str_nat n = (if n < 10 then [48 + n] else str_nat (n div 10) @ [48 + n mod 10])"

declare str_nat.simps [simp del]

definition HTTP_ERROR_PREFIX :: pystr where
  "HTTP_ERROR_PREFIX = [72, 84, 84, 80, 12456, 12521, 12540, 58, 32]"

section \<open>The filter loader\<close>

text \<open>
  \<open>load_hospital_device_list\<close>.  The loop over the header has no \<open>break\<close>: a later
  matching column replaces an earlier one.
\<close>

fun find_columns ::
    "pystr list \<Rightarrow> pystr option \<Rightarrow> pystr option \<Rightarrow> pystr option \<times> pystr option" where
  "find_columns [] approval_col certification_col = (approval_col, certification_col)"
| "find_columns (col # cols) approval_col certification_col =
     find_columns cols
       (if py_in KEY_APPROVAL col then Some col else approval_col)
       (if py_in KEY_CERTIFICATION col then Some col else certification_col)"

text \<open>
  One statement of the loop over the rows:
  \<open>if col and row.get(col): numbers.add(row[col].strip())\<close>.
\<close>

definition add_number :: "pystr option \<Rightarrow> pydict \<Rightarrow> pystr set \<Rightarrow> pystr set" where
  "add_number col row numbers =
     (case col of
        None \<Rightarrow> numbers
      | Some c \<Rightarrow>
          if c \<noteq> [] \<and> truthy (dict_get row c PyNone) then
            (case dict_get row c PyNone of
               PyStr v \<Rightarrow> insert (py_strip v) numbers
             | PyNone \<Rightarrow> numbers)
          else numbers)"

definition load_hospital_device_list :: "state \<Rightarrow> pystr \<Rightarrow> exn + (pystr set \<times> pystr set)" where
  "load_hospital_device_list s csv_path =
     (case open_read s csv_path of
        Inl e \<Rightarrow> Inl e
      | Inr lines \<Rightarrow>
          (case csv_reader lines of
             Inl e \<Rightarrow> Inl e
           | Inr records \<Rightarrow>
               (case DictReader records of
                  (None, rows) \<Rightarrow> Inl (TypeError, ascii ''NoneType object is not iterable'')
                | (Some header, rows) \<Rightarrow>
                    (case find_columns header None None of
                       (approval_col, certification_col) \<Rightarrow>
                         Inr (fold (add_number approval_col) rows {},
                              fold (add_number certification_col) rows {})))))"

definition load_filter_lists ::
    "bool \<Rightarrow> pystr \<Rightarrow> state \<Rightarrow> (exn + (pystr set \<times> pystr set)) \<times> state" where
  "load_filter_lists use_filter hosp_csv s =
     (if use_filter then
        (let s1 = add_log LogListLoading s
         in case load_hospital_device_list s1 hosp_csv of
              Inl e \<Rightarrow> (Inl e, add_log (LogListError e) s1)
            | Inr (target_approvals, target_certs) \<Rightarrow>
                (Inr (target_approvals, target_certs),
                 add_log (LogListLoaded (card target_approvals) (card target_certs)) s1))
      else (Inr ({}, {}), s))"

section \<open>The download orchestrator\<close>

text \<open>
  The rows of the table as \<open>_load_and_filter_targets\<close> reads them:
  \<open>list(csv.DictReader(f))\<close> over the opened file.
\<close>

definition read_dict_rows :: "state \<Rightarrow> pystr \<Rightarrow> exn + pydict list" where
  "read_dict_rows s csv_file =
     (case open_read s csv_file of
        Inl e \<Rightarrow> Inl e
      | Inr lines \<Rightarrow>
          (case csv_reader lines of
             Inl e \<Rightarrow> Inl e
           | Inr records \<Rightarrow> Inr (snd (DictReader records))))"

text \<open>The test of the list comprehension: the section is the listed one and the
  address of the document is a non-empty string.\<close>

definition is_target :: "pydict \<Rightarrow> bool" where
  "is_target r \<longleftrightarrow>
     dict_get r KEY_SECTION PyNone = PyStr SECTION_LISTED \<and> truthy (dict_get r KEY_PDF_URL PyNone)"

text \<open>\<open>v.strip()\<close> of a value that may be \<open>None\<close>.\<close>

fun method_strip :: "pyval \<Rightarrow> exn + pystr" where
  "method_strip (PyStr v) = Inr (py_strip v)"
| "method_strip PyNone = Inl (AttributeError, ascii ''NoneType object has no attribute strip'')"

text \<open>The loop that fills \<open>filtered\<close>.\<close>

fun filter_targets ::
    "pystr set \<Rightarrow> pystr set \<Rightarrow> pydict list \<Rightarrow> pydict list \<Rightarrow> exn + pydict list" where
  "filter_targets target_approvals target_certs [] filtered = Inr filtered"
| "filter_targets target_approvals target_certs (r # targets) filtered =
     (case method_strip (dict_get r KEY_APPROVAL (PyStr [])) of
        Inl e \<Rightarrow> Inl e
      | Inr an \<Rightarrow>
          (case method_strip (dict_get r KEY_CERTIFICATION (PyStr [])) of
             Inl e \<Rightarrow> Inl e
           | Inr cn \<Rightarrow>
               if (an \<noteq> [] \<and> an \<in> target_approvals) \<or> (cn \<noteq> [] \<and> cn \<in> target_certs)
               then filter_targets target_approvals target_certs targets (filtered @ [r])
               else filter_targets target_approvals target_certs targets filtered))"

definition load_and_filter_targets ::
    "pystr \<Rightarrow> bool \<Rightarrow> pystr set \<Rightarrow> pystr set \<Rightarrow> state \<Rightarrow> (exn + pydict list) \<times> state" where
  "load_and_filter_targets csv_file use_filter target_approvals target_certs s =
     (case read_dict_rows s csv_file of
        Inl e \<Rightarrow> (Inl e, s)
      | Inr rows \<Rightarrow>
          (let targets = filter is_target rows
           in if use_filter then
                (case filter_targets target_approvals target_certs targets [] of
                   Inl e \<Rightarrow> (Inl e, s)
                 | Inr filtered \<Rightarrow>
                     (Inr filtered, add_log (LogMatched (length targets) (length filtered)) s))
              else (Inr targets, s)))"

text \<open>\<open>extract_doc_id_from_url\<close>: the last part of the address between slashes.\<close>

definition extract_doc_id_from_url :: "pystr \<Rightarrow> pystr option" where
  "extract_doc_id_from_url url =
     (let parts = py_split SLASH (py_strip_chars [SLASH] url)
      in if parts \<noteq> [] then Some (last parts) else None)"

text \<open>
  The file name of a row, from the document identifier and the product name: the first
  ten characters of the name, each character of \<open>invalid_chars\<close> replaced by \<open>_\<close>.
\<close>

definition make_filename :: "pystr \<Rightarrow> pystr \<Rightarrow> pystr" where
  "make_filename doc_id name =
     (let product_name_short =
            fold (\<lambda>char short. py_replace short [char] (ascii ''_'')) invalid_chars (take 10 name)
      in if product_name_short \<noteq> [] then doc_id @ ascii ''_'' @ product_name_short @ PDF_EXTENSION
         else doc_id @ PDF_EXTENSION)"

text \<open>
  The head of the loop body of \<open>_download_files\<close>, up to the file name: the name, the
  address and the file name of the row, or \<open>None\<close> where the loop continues with the
  next row.  A missing cell (\<open>None\<close>) raises where a string method is applied to it.
\<close>

definition target_filename :: "pydict \<Rightarrow> exn + (pystr \<times> pystr \<times> pystr) option" where
  "target_filename row =
     (case dict_get row KEY_PDF_URL (PyStr []) of
        PyNone \<Rightarrow> Inl (AttributeError, ascii ''NoneType object has no attribute strip'')
      | PyStr url \<Rightarrow>
          (case extract_doc_id_from_url url of
             None \<Rightarrow> Inr None
           | Some doc_id \<Rightarrow>
               if doc_id = [] then Inr None
               else
                 (case dict_get row KEY_PRODUCT (PyStr []) of
                    PyNone \<Rightarrow> Inl (TypeError, ascii ''NoneType object is not subscriptable'')
                  | PyStr name \<Rightarrow> Inr (Some (name, url, make_filename doc_id name)))))"

text \<open>
  \<open>download_file\<close>.  The file is created (and emptied) when it is opened; the chunks
  received before an exception stay in it.
\<close>

definition download_file ::
    "env \<Rightarrow> pystr \<Rightarrow> pystr \<Rightarrow> state \<Rightarrow> (bool \<times> pystr option) \<times> state" where
  "download_file E url save_path s =
     (let s1 = add_request url s
      in case pdf_response E url of
           Inl e \<Rightarrow> ((False, Some (snd e)), s1)
         | Inr resp \<Rightarrow>
             if status_code resp = 200 then
               (case open_write_error E save_path of
                  Some e \<Rightarrow> ((False, Some (snd e)), s1)
                | None \<Rightarrow>
                    (let s2 = s1\<lparr> files := (files s1)(save_path \<mapsto> concat (body_chunks resp)) \<rparr>
                     in case body_error resp of
                          Some e \<Rightarrow> ((False, Some (snd e)), s2)
                        | None \<Rightarrow> ((True, None), s2)))
             else ((False, Some (HTTP_ERROR_PREFIX @ str_nat (status_code resp))), s1))"

text \<open>\<open>_download_files\<close>: the loop, with the counter \<open>i\<close> of \<open>enumerate\<close>.\<close>

fun download_files_loop ::
    "env \<Rightarrow> pystr \<Rightarrow> bool \<Rightarrow> nat \<Rightarrow> nat \<Rightarrow> pydict list \<Rightarrow> nat \<times> nat \<times> nat \<Rightarrow> state
      \<Rightarrow> (exn + nat \<times> nat \<times> nat) \<times> state" where
  "download_files_loop E pdf_dir skip_exist n_total i [] tally s = (Inr tally, s)"
| "download_files_loop E pdf_dir skip_exist n_total i (row # rows) (success, fail, skipped) s =
     (case read_is_running E s of
        (running, s1) \<Rightarrow>
          if \<not> running then (Inr (success, fail, skipped), s1)
          else
            (case target_filename row of
               Inl e \<Rightarrow> (Inl e, s1)
             | Inr None \<Rightarrow>
                 download_files_loop E pdf_dir skip_exist n_total (Suc i) rows
                   (success, fail, skipped) s1
             | Inr (Some (name, url, filename)) \<Rightarrow>
                 (let save_path = os_path_join pdf_dir filename;
                      s2 = add_log (LogDownloadRow i n_total (take 30 name)) s1
                  in if skip_exist \<and> os_path_exists s2 save_path then
                       download_files_loop E pdf_dir skip_exist n_total (Suc i) rows
                         (success, fail, Suc skipped) (add_log LogSkipped s2)
                     else
                       (case download_file E url save_path s2 of
                          ((ok, err), s3) \<Rightarrow>
                            if ok then
                              download_files_loop E pdf_dir skip_exist n_total (Suc i) rows
                                (Suc success, fail, skipped) (add_log LogDone s3)
                            else
                              download_files_loop E pdf_dir skip_exist n_total (Suc i) rows
                                (success, Suc fail, skipped) (add_log (LogFailed err) s3)))))"

definition download_files ::
    "env \<Rightarrow> pydict list \<Rightarrow> pystr \<Rightarrow> bool \<Rightarrow> state \<Rightarrow> (exn + nat \<times> nat \<times> nat) \<times> state" where
  "download_files E targets pdf_dir skip_exist s =
     download_files_loop E pdf_dir skip_exist (length targets) 1 targets (0, 0, 0) s"

text \<open>
  \<open>download_thread\<close>, with \<open>_handle_download_completion\<close>: every exception is caught
  and logged, and ends the run.  (The message boxes and the creation of the output
  directory are left out.)
\<close>

definition handle_download_completion :: "env \<Rightarrow> nat \<times> nat \<times> nat \<Rightarrow> state \<Rightarrow> state" where
  "handle_download_completion E tally s =
     (case read_is_running E s of
        (running, s1) \<Rightarrow>
          if \<not> running then
            (case tally of (success, fail, skipped) \<Rightarrow>
               add_log (LogInterrupted success skipped fail) s1)
          else add_log LogAllDone s1)"

definition download_thread ::
    "env \<Rightarrow> pystr \<Rightarrow> pystr \<Rightarrow> bool \<Rightarrow> pystr \<Rightarrow> bool \<Rightarrow> state \<Rightarrow> state" where
  "download_thread E csv_file out_dir use_filter hosp_csv skip_exist s =
     (let pdf_dir = os_path_join out_dir (ascii ''pdf'')
      in case load_filter_lists use_filter hosp_csv s of
           (Inl e, s1) \<Rightarrow> add_log (LogError e) s1
         | (Inr (target_approvals, target_certs), s1) \<Rightarrow>
             (case load_and_filter_targets csv_file use_filter target_approvals target_certs s1 of
                (Inl e, s2) \<Rightarrow> add_log (LogError e) s2
              | (Inr targets, s2) \<Rightarrow>
                  (case download_files E targets pdf_dir skip_exist
                          (add_log (LogDownloadStart (length targets)) s2) of
                     (Inl e, s3) \<Rightarrow> add_log (LogError e) s3
                   | (Inr tally, s3) \<Rightarrow> handle_download_completion E tally s3)))"

section \<open>The listing fetcher and the collection orchestrator\<close>

text \<open>
  A collected row: the dictionary with the nine keys that \<open>scrape_date\<close> appends.
\<close>

record listing =
  l_date :: pystr
  l_section :: pystr
  l_product_name :: pystr
  l_company :: pystr
  l_reason :: pystr
  l_approval_no :: pystr
  l_certification_no :: pystr
  l_detail_url :: pystr
  l_pdf_url :: pystr

text \<open>
  \<open>fetch_approval_number\<close>: the approval number and the certification number.  The
  derivation of the address stands before the \<open>try\<close>; a failure of the request or of
  the parse is logged (when there is a log callback) and gives two empty strings.
\<close>

definition fetch_approval_number ::
    "env \<Rightarrow> settings \<Rightarrow> pystr \<Rightarrow> bool \<Rightarrow> state \<Rightarrow> (exn + pystr \<times> pystr) \<times> state" where
  "fetch_approval_number E cfg detail_url log_callback s =
     (case convert_detail_url_to_body_url cfg detail_url of
        Inl e \<Rightarrow> (Inl e, s)
      | Inr body_url \<Rightarrow>
          if body_url = [] then (Inr ([], []), s)
          else
            (let s1 = add_request body_url s
             in case body_page E body_url of
                  Inl e \<Rightarrow> (Inr ([], []), if log_callback then add_log (LogNumberError e) s1 else s1)
                | Inr (certification_div, approval_div) \<Rightarrow>
                    (Inr (case approval_div of None \<Rightarrow> [] | Some t \<Rightarrow> t,
                          case certification_div of None \<Rightarrow> [] | Some t \<Rightarrow> t), s1)))"

text \<open>
  \<open>table.find_previous('h2')\<close> over the elements before a table, nearest first, and
  \<open>soup.find_all('table')\<close>: every table with the elements before it.
\<close>

fun find_previous_h2 :: "node list \<Rightarrow> pystr option" where
  "find_previous_h2 [] = None"
| "find_previous_h2 (H2 t # before) = Some t"
| "find_previous_h2 (Table rows # before) = find_previous_h2 before"

fun find_all_table :: "node list \<Rightarrow> node list \<Rightarrow> (node list \<times> td_cell list list) list" where
  "find_all_table before [] = []"
| "find_all_table before (H2 t # nodes) = find_all_table (H2 t # before) nodes"
| "find_all_table before (Table rows # nodes) =
     (before, rows) # find_all_table (Table rows # before) nodes"

text \<open>
  The test \<open>cancel_check and not cancel_check()\<close>: whether to stop, reading the flag
  only when there is a callback.
\<close>

definition check_cancel :: "env \<Rightarrow> bool \<Rightarrow> state \<Rightarrow> bool \<times> state" where
  "check_cancel E cancel_check s =
     (if cancel_check then (case read_is_running E s of (running, s1) \<Rightarrow> (\<not> running, s1))
      else (False, s))"

text \<open>
  How a loop over rows ends: by the \<open>return results\<close> of a cancel check, or by running
  to its end.
\<close>

datatype loop_exit = Returned "listing list" | Completed "listing list"

text \<open>The last statement of the row: the append, guarded by the product name.\<close>

definition append_row :: "listing \<Rightarrow> listing list \<Rightarrow> listing list" where
  "append_row row results =
     (if l_product_name row \<noteq> [] \<and> l_product_name row \<noteq> KEY_PRODUCT then results @ [row]
      else results)"

text \<open>The body of the loop over the rows of a table.\<close>

definition scrape_row ::
    "env \<Rightarrow> settings \<Rightarrow> pystr \<Rightarrow> bool \<Rightarrow> bool \<Rightarrow> bool \<Rightarrow> pystr \<Rightarrow> td_cell list
      \<Rightarrow> listing list \<Rightarrow> state \<Rightarrow> (exn + loop_exit) \<times> state" where
  "scrape_row E cfg date_str fetch_numbers log_callback cancel_check current_section cells results s =
     (case check_cancel E cancel_check s of
        (stop, s1) \<Rightarrow>
          if stop then (Inr (Returned results), s1)
          else if 3 \<le> length cells then
            (let name_cell = cells ! 0;
                 product_name = (case cell_link name_cell of
                                   Some (link_text, href) \<Rightarrow> link_text
                                 | None \<Rightarrow> cell_text name_cell);
                 detail_url = (case cell_link name_cell of
                                 Some (link_text, href) \<Rightarrow>
                                   detail_base_url cfg @ (case href of Some h \<Rightarrow> h | None \<Rightarrow> [])
                               | None \<Rightarrow> []);
                 company = py_replace (cell_text (cells ! 1)) MAKER_PREFIX [];
                 reason = cell_text (cells ! 2)
             in case convert_detail_url_to_pdf cfg detail_url of
                  Inl e \<Rightarrow> (Inl e, s1)
                | Inr pdf_url \<Rightarrow>
                    (let row = \<lparr> l_date = date_str, l_section = current_section,
                                 l_product_name = product_name, l_company = company,
                                 l_reason = reason, l_approval_no = [],
                                 l_certification_no = [], l_detail_url = detail_url,
                                 l_pdf_url = pdf_url \<rparr>
                     in if fetch_numbers \<and> detail_url \<noteq> [] \<and> current_section = SECTION_LISTED then
                          (case check_cancel E cancel_check s1 of
                             (stop2, s2) \<Rightarrow>
                               if stop2 then (Inr (Returned results), s2)
                               else
                                 (case fetch_approval_number E cfg detail_url log_callback
                                         (if log_callback
                                          then add_log (LogNumberFetching (take 30 product_name)) s2
                                          else s2) of
                                    (Inl e, s3) \<Rightarrow> (Inl e, s3)
                                  | (Inr (approval_no, certification_no), s3) \<Rightarrow>
                                      (Inr (Completed
                                         (append_row (row\<lparr> l_approval_no := approval_no,
                                                            l_certification_no := certification_no \<rparr>)
                                            results)), s3)))
                        else (Inr (Completed (append_row row results)), s1)))
          else (Inr (Completed results), s1))"

fun scrape_rows ::
    "env \<Rightarrow> settings \<Rightarrow> pystr \<Rightarrow> bool \<Rightarrow> bool \<Rightarrow> bool \<Rightarrow> pystr \<Rightarrow> td_cell list list
      \<Rightarrow> listing list \<Rightarrow> state \<Rightarrow> (exn + loop_exit) \<times> state" where
  "scrape_rows E cfg date_str fetch_numbers log_callback cancel_check current_section [] results s =
     (Inr (Completed results), s)"
| "scrape_rows E cfg date_str fetch_numbers log_callback cancel_check current_section (cells # rows)
      results s =
     (case scrape_row E cfg date_str fetch_numbers log_callback cancel_check current_section cells
             results s of
        (Inl e, s1) \<Rightarrow> (Inl e, s1)
      | (Inr (Returned r), s1) \<Rightarrow> (Inr (Returned r), s1)
      | (Inr (Completed r), s1) \<Rightarrow>
          scrape_rows E cfg date_str fetch_numbers log_callback cancel_check current_section rows r s1)"

text \<open>
  The head of the loop over the tables: \<open>current_section\<close> is set when the nearest
  heading before the table holds one of the two markers, and keeps its value otherwise.
\<close>

definition update_section :: "pystr option \<Rightarrow> node list \<Rightarrow> pystr option" where
  "update_section current_section before =
     (case find_previous_h2 before of
        Some heading \<Rightarrow>
          if py_in LISTED_MARKER heading then Some SECTION_LISTED
          else if py_in DELETED_MARKER heading then Some SECTION_DELETED
          else current_section
      | None \<Rightarrow> current_section)"

fun scrape_tables ::
    "env \<Rightarrow> settings \<Rightarrow> pystr \<Rightarrow> bool \<Rightarrow> bool \<Rightarrow> bool \<Rightarrow> pystr option
      \<Rightarrow> (node list \<times> td_cell list list) list \<Rightarrow> listing list \<Rightarrow> state
      \<Rightarrow> (exn + listing list) \<times> state" where
  "scrape_tables E cfg date_str fetch_numbers log_callback cancel_check current_section [] results s =
     (Inr results, s)"
| "scrape_tables E cfg date_str fetch_numbers log_callback cancel_check current_section
      ((before, rows) # tables) results s =
     (case update_section current_section before of
        None \<Rightarrow>
          scrape_tables E cfg date_str fetch_numbers log_callback cancel_check None tables results s
      | Some sec \<Rightarrow>
          (case scrape_rows E cfg date_str fetch_numbers log_callback cancel_check sec rows results s of
             (Inl e, s1) \<Rightarrow> (Inl e, s1)
           | (Inr (Returned r), s1) \<Rightarrow> (Inr r, s1)
           | (Inr (Completed r), s1) \<Rightarrow>
               scrape_tables E cfg date_str fetch_numbers log_callback cancel_check (Some sec)
                 tables r s1))"

text \<open>
  \<open>scrape_date\<close>: the body of the \<open>try\<close>, and the handler that logs the exception and
  returns the empty list.
\<close>

definition scrape_date_try ::
    "env \<Rightarrow> settings \<Rightarrow> pystr \<Rightarrow> bool \<Rightarrow> bool \<Rightarrow> bool \<Rightarrow> state \<Rightarrow> (exn + listing list) \<times> state" where
  "scrape_date_try E cfg date_str fetch_numbers log_callback cancel_check s =
     (let url = base_url cfg @ py_replace date_str (ascii ''-'') [];
          s1 = add_request url s
      in case listing_page E url of
           Inl e \<Rightarrow> (Inl e, s1)
         | Inr nodes \<Rightarrow>
             scrape_tables E cfg date_str fetch_numbers log_callback cancel_check None
               (find_all_table [] nodes) [] s1)"

definition scrape_date ::
    "env \<Rightarrow> settings \<Rightarrow> pystr \<Rightarrow> bool \<Rightarrow> bool \<Rightarrow> bool \<Rightarrow> state \<Rightarrow> (exn + listing list) \<times> state" where
  "scrape_date E cfg date_str fetch_numbers log_callback cancel_check s =
     (case scrape_date_try E cfg date_str fetch_numbers log_callback cancel_check s of
        (Inl e, s1) \<Rightarrow> (Inr [], if log_callback then add_log (LogScrapeError e) s1 else s1)
      | (Inr results, s1) \<Rightarrow> (Inr results, s1))"

text \<open>
  \<open>_collect_data\<close>: the loop over the dates, with the counter \<open>i\<close> of \<open>enumerate\<close>.  It
  calls \<open>scrape_date\<close> with the log and with the cancel check.
\<close>

fun collect_loop ::
    "env \<Rightarrow> settings \<Rightarrow> bool \<Rightarrow> nat \<Rightarrow> nat \<Rightarrow> pystr list \<Rightarrow> listing list \<Rightarrow> state
      \<Rightarrow> (exn + listing list) \<times> state" where
  "collect_loop E cfg fetch_nums n_total i [] all_results s = (Inr all_results, s)"
| "collect_loop E cfg fetch_nums n_total i (date_str # dates) all_results s =
     (case read_is_running E s of
        (running, s1) \<Rightarrow>
          if \<not> running then (Inr all_results, s1)
          else
            (case scrape_date E cfg date_str fetch_nums True True
                    (add_log (LogCollecting i n_total date_str) s1) of
               (Inl e, s2) \<Rightarrow> (Inl e, s2)
             | (Inr results, s2) \<Rightarrow>
                 collect_loop E cfg fetch_nums n_total (Suc i) dates (all_results @ results)
                   (add_log (LogCollected (length results)) s2)))"

definition collect_data ::
    "env \<Rightarrow> settings \<Rightarrow> pystr list \<Rightarrow> bool \<Rightarrow> state \<Rightarrow> (exn + listing list) \<times> state" where
  "collect_data E cfg dates fetch_nums s =
     collect_loop E cfg fetch_nums (length dates) 1 dates [] s"

section \<open>The tabular store\<close>

text \<open>
  \<open>save_results\<close>: the header and one line per row, written through \<open>csv.DictWriter\<close>
  to a file opened with \<open>encoding='utf-8-sig'\<close> and \<open>newline=''\<close>, so that the file
  starts with the byte order mark and the lines go out as the writer made them.
  \<open>listing_row\<close> is the list of values \<open>DictWriter\<close> takes from a row, in the order of
  \<open>fieldnames\<close>.  A line with a code point that UTF-8 cannot encode (a surrogate) raises
  when it is written; the lines before it stay in the file.  The time stamp of the file
  name is the argument \<open>ts\<close>.
\<close>

definition listing_row :: "listing \<Rightarrow> pystr list" where
  "listing_row r =
     [l_date r, l_section r, l_product_name r, l_company r, l_reason r, l_approval_no r,
      l_certification_no r, l_detail_url r, l_pdf_url r]"

definition encodable :: "nat \<Rightarrow> bool" where
  "encodable c \<longleftrightarrow> c < 55296 \<or> (57343 < c \<and> c < 1114112)"

definition save_results ::
    "env \<Rightarrow> pystr \<Rightarrow> listing list \<Rightarrow> pystr \<Rightarrow> state \<Rightarrow> (exn + pystr) \<times> state" where
  "save_results E ts results out_dir s =
     (let output_path = os_path_join out_dir (CSV_FILENAME_PREFIX @ ts @ ascii ''.csv'');
          lines = csv_writerow fieldnames # map (\<lambda>r. csv_writerow (listing_row r)) results
      in case open_write_error E output_path of
           Some e \<Rightarrow> (Inl e, s)
         | None \<Rightarrow>
             (let written = concat (takeWhile (list_all encodable) lines);
                  s1 = s\<lparr> files := (files s)(output_path \<mapsto> BOM # written) \<rparr>
              in if list_all (list_all encodable) lines
                 then (Inr output_path, add_log (LogSaved output_path) s1)
                 else (Inl (UnicodeEncodeError, ascii ''surrogates not allowed''), s1)))"

text \<open>The dictionary of a collected row: its nine values under the nine column names.\<close>

definition listing_dict :: "listing \<Rightarrow> pydict" where
  "listing_dict r = zip fieldnames (map PyStr (listing_row r))"

section \<open>Notions used to state the properties\<close>

text \<open>
  The string in a cell of a row read from a table: the empty string when the table has
  no such column.  A cell is absent when the row is too short for its column, so that
  \<open>DictReader\<close> has put \<open>None\<close> there.
\<close>

definition absent_cell :: "pydict \<Rightarrow> pystr \<Rightarrow> bool" where
  "absent_cell r k \<longleftrightarrow> dict_get r k (PyStr []) = PyNone"

definition cell_str :: "pydict \<Rightarrow> pystr \<Rightarrow> pystr" where
  "cell_str r k = (case dict_get r k (PyStr []) of PyStr v \<Rightarrow> v | PyNone \<Rightarrow> [])"

text \<open>
  The allow-list test on the trimmed numbers of a row, and the test of the claim on the
  numbers as they stand in the table.
\<close>

definition allowed_trimmed :: "pystr set \<Rightarrow> pystr set \<Rightarrow> pydict \<Rightarrow> bool" where
  "allowed_trimmed target_approvals target_certs r \<longleftrightarrow>
     (py_strip (cell_str r KEY_APPROVAL) \<noteq> [] \<and> py_strip (cell_str r KEY_APPROVAL) \<in> target_approvals) \<or>
     (py_strip (cell_str r KEY_CERTIFICATION) \<noteq> [] \<and>
      py_strip (cell_str r KEY_CERTIFICATION) \<in> target_certs)"

definition allowed_untrimmed_spec :: "pystr set \<Rightarrow> pystr set \<Rightarrow> pydict \<Rightarrow> bool" where
  "allowed_untrimmed_spec target_approvals target_certs r \<longleftrightarrow>
     (cell_str r KEY_APPROVAL \<noteq> [] \<and> cell_str r KEY_APPROVAL \<in> target_approvals) \<or>
     (cell_str r KEY_CERTIFICATION \<noteq> [] \<and> cell_str r KEY_CERTIFICATION \<in> target_certs)"

section \<open>Concrete inputs\<close>

text \<open>
  A state whose only file is the given one, a table written by the writer of the
  \<open>csv\<close> module, and rows for it.
\<close>

definition state_with_file :: "pystr \<Rightarrow> pystr \<Rightarrow> state" where
  "state_with_file path content =
     \<lparr> files = Map.empty(path \<mapsto> content), polls = 0, requests = [], logged = [] \<rparr>"

definition table_of :: "pystr list list \<Rightarrow> pystr" where
  "table_of rows = BOM # concat (map csv_writerow rows)"

definition example_pdf_url :: pystr where
  "example_pdf_url = ascii ''https://www.info.pmda.go.jp/ygo/pdf/123_456/''"

definition example_row :: "pystr \<Rightarrow> pystr \<Rightarrow> pystr \<Rightarrow> pystr \<Rightarrow> pystr list" where
  "example_row sec approval certification pdf =
     [ascii ''2024-01-15'', sec, ascii ''ProductX'', ascii ''ACME'', ascii ''recall'', approval,
      certification, ascii ''https://www.info.pmda.go.jp/ygo/pack/123/456'', pdf]"

definition dict_of_row :: "pystr list \<Rightarrow> pydict" where
  "dict_of_row row = zip fieldnames (map PyStr row)"

text \<open>A table whose only row has an approval number with a leading space.\<close>

definition spaced_table :: pystr where
  "spaced_table =
     table_of [fieldnames, example_row SECTION_LISTED (ascii '' A100'') [] example_pdf_url]"

text \<open>A table with an allowed row, a row with another number and a deleted row.\<close>

definition three_row_table :: pystr where
  "three_row_table =
     table_of [fieldnames,
               example_row SECTION_LISTED (ascii ''A100'') [] example_pdf_url,
               example_row SECTION_LISTED (ascii ''A999'') [] example_pdf_url,
               example_row SECTION_DELETED (ascii ''A100'') [] example_pdf_url]"

text \<open>
  A table in the column order of \<open>save_results\<close> with a full row and a row of three
  fields, and a table with the columns in another order whose only row stops after the
  address of the document.
\<close>

definition short_row_table :: pystr where
  "short_row_table =
     table_of [fieldnames,
               example_row SECTION_LISTED (ascii ''A100'') [] example_pdf_url,
               [ascii ''2024-01-16'', SECTION_LISTED, ascii ''ProductY'']]"

definition reordered_short_table :: pystr where
  "reordered_short_table =
     table_of [[KEY_SECTION, KEY_PDF_URL, KEY_APPROVAL, KEY_CERTIFICATION],
               [SECTION_LISTED, example_pdf_url]]"

text \<open>
  An allow-list file with one approval column, a state that holds it beside a table, and
  an environment in which every request fails except the download of a document, which
  answers with a small body.
\<close>

definition hospital_table :: pystr where
  "hospital_table = table_of [[KEY_APPROVAL], [ascii ''A100'']]"

definition state_with_tables :: "pystr \<Rightarrow> state" where
  "state_with_tables table =
     \<lparr> files = Map.empty(ascii ''list.csv'' \<mapsto> table, ascii ''hospital.csv'' \<mapsto> hospital_table),
       polls = 0, requests = [], logged = [] \<rparr>"

definition serving_env :: env where
  "serving_env =
     \<lparr> listing_page = (\<lambda>url. Inl (RequestException, ascii ''unreachable'')),
       body_page = (\<lambda>url. Inl (RequestException, ascii ''unreachable'')),
       pdf_response = (\<lambda>url. Inr \<lparr> status_code = 200, body_chunks = [ascii ''%PDF''],
                                     body_error = None \<rparr>),
       open_write_error = (\<lambda>path. None),
       cancel_at = None \<rparr>"

text \<open>
  The column an identifier set is built from, in the source (the last header name that
  holds the marker) and in the specification's words (the first one), and the set built
  from a column: the trimmed values of the non-empty cells of that column.
\<close>

definition last_matching_column :: "pystr \<Rightarrow> pystr list \<Rightarrow> pystr option" where
  "last_matching_column marker header =
     (case filter (py_in marker) header of [] \<Rightarrow> None | col # cols \<Rightarrow> Some (last (col # cols)))"

definition first_matching_column_spec :: "pystr \<Rightarrow> pystr list \<Rightarrow> pystr option" where
  "first_matching_column_spec marker header =
     (case filter (py_in marker) header of [] \<Rightarrow> None | col # cols \<Rightarrow> Some col)"

definition column_numbers :: "pystr option \<Rightarrow> pydict list \<Rightarrow> pystr set" where
  "column_numbers col rows =
     (case col of
        None \<Rightarrow> {}
      | Some c \<Rightarrow> set (map py_strip (filter (\<lambda>v. v \<noteq> []) (map (\<lambda>row. cell_str row c) rows))))"

text \<open>An allow-list file with two columns whose names hold the approval marker.\<close>

definition two_approval_columns :: "pystr list" where
  "two_approval_columns = [KEY_APPROVAL, 26087 # KEY_APPROVAL]"

definition two_column_table :: pystr where
  "two_column_table = table_of [two_approval_columns, [ascii ''A1'', ascii ''B2'']]"

text \<open>
  A listed row whose document address ends in a segment with a question mark (the
  address the program derives from a link \<open>/ygo/pack/123/456?lang=ja\<close>) and whose
  product name holds a colon.
\<close>

definition query_row :: pydict where
  "query_row =
     dict_of_row
       [ascii ''2024-01-15'', SECTION_LISTED, ascii ''A:B'', ascii ''ACME'', ascii ''recall'', [], [],
        ascii ''https://www.info.pmda.go.jp/ygo/pack/123/456?lang=ja'',
        ascii ''https://www.info.pmda.go.jp/ygo/pdf/123_456?lang=ja/'']"

text \<open>
  An environment in which the download of a document answers with status 200 and breaks
  after the first chunk of the body, and a state with no file.
\<close>

definition broken_env :: env where
  "broken_env =
     \<lparr> listing_page = (\<lambda>url. Inl (RequestException, ascii ''unreachable'')),
       body_page = (\<lambda>url. Inl (RequestException, ascii ''unreachable'')),
       pdf_response = (\<lambda>url. Inr \<lparr> status_code = 200, body_chunks = [ascii ''%PDF-1.4''],
                                     body_error = Some (RequestException, ascii ''Connection broken'') \<rparr>),
       open_write_error = (\<lambda>path. None),
       cancel_at = None \<rparr>"

definition empty_state :: state where
  "empty_state = \<lparr> files = Map.empty, polls = 0, requests = [], logged = [] \<rparr>"

text \<open>The rows a loop over rows has collected when it ends, whichever way it ends.\<close>

fun exit_results :: "loop_exit \<Rightarrow> listing list" where
  "exit_results (Returned results) = results"
| "exit_results (Completed results) = results"

text \<open>
  The two numbers \<open>fetch_approval_number\<close> returns for a detail address: they depend on
  the environment only, not on the state.
\<close>

definition fetched_numbers :: "env \<Rightarrow> settings \<Rightarrow> pystr \<Rightarrow> exn + pystr \<times> pystr" where
  "fetched_numbers E cfg detail_url =
     fst (fetch_approval_number E cfg detail_url False
            \<lparr> files = Map.empty, polls = 0, requests = [], logged = [] \<rparr>)"

text \<open>
  The records gathered from one date: what \<open>scrape_date\<close>, called as \<open>_collect_data\<close>
  calls it, returns for the date when nobody cancels.
\<close>

definition gathered :: "env \<Rightarrow> settings \<Rightarrow> bool \<Rightarrow> pystr \<Rightarrow> listing list" where
  "gathered E cfg fetch_nums date_str =
     (case fst (scrape_date (E\<lparr>cancel_at := None\<rparr>) cfg date_str fetch_nums True True empty_state) of
        Inr results \<Rightarrow> results
      | Inl e \<Rightarrow> [])"

text \<open>
  The number of reads of the flag \<open>is_running\<close> that have been made when the loop of
  \<open>_collect_data\<close> over \<open>dates\<close>, started in the state \<open>s\<close>, has processed its first
  \<open>k\<close> dates.
\<close>

definition polls_after :: "env \<Rightarrow> settings \<Rightarrow> bool \<Rightarrow> pystr list \<Rightarrow> nat \<Rightarrow> state \<Rightarrow> nat" where
  "polls_after E cfg fetch_nums dates k s =
     polls (snd (collect_loop (E\<lparr>cancel_at := None\<rparr>) cfg fetch_nums (length dates) 1
                   (take k dates) [] s))"

text \<open>
  The listing page of scenario A of the specification: one table after the heading of
  the listed section, with one row.  In \<open>listing_env\<close> every date has this page, and the
  cancel request comes when four reads of the flag have been made.
\<close>

definition product_row :: "td_cell list" where
  "product_row =
     [\<lparr> cell_link = Some (ascii ''ProductX'', Some (ascii ''/ygo/pack/123/456'')),
         cell_text = ascii ''ProductX'' \<rparr>,
      \<lparr> cell_link = None, cell_text = MAKER_PREFIX @ ascii ''ACME'' \<rparr>,
      \<lparr> cell_link = None, cell_text = ascii ''recall'' \<rparr>]"

definition scenario_page :: "node list" where
  "scenario_page = [H2 LISTED_MARKER, Table [product_row]]"

definition listing_env :: env where
  "listing_env =
     \<lparr> listing_page = (\<lambda>url. Inr scenario_page),
       body_page = (\<lambda>url. Inl (RequestException, ascii ''unreachable'')),
       pdf_response = (\<lambda>url. Inl (RequestException, ascii ''unreachable'')),
       open_write_error = (\<lambda>path. None),
       cancel_at = Some 4 \<rparr>"

definition product_record :: "pystr \<Rightarrow> pystr \<Rightarrow> listing" where
  "product_record date_str sec =
     \<lparr> l_date = date_str, l_section = sec, l_product_name = ascii ''ProductX'',
       l_company = ascii ''ACME'', l_reason = ascii ''recall'', l_approval_no = [],
       l_certification_no = [],
       l_detail_url = ascii ''https://www.info.pmda.go.jp/ygo/pack/123/456'',
       l_pdf_url = ascii ''https://www.info.pmda.go.jp/ygo/pdf/123_456/'' \<rparr>"

text \<open>
  The classification of a table's nearest preceding level-2 heading, in the words of the
  specification: a table with no preceding heading has none; a heading that holds the
  marker of the listed section is classified as listed; otherwise a heading that holds
  the marker of the deleted section is classified as deleted; a heading that holds
  neither marker has no classification.
\<close>

definition classify_heading_spec :: "pystr option \<Rightarrow> pystr option" where
  "classify_heading_spec heading =
     (case heading of
        None \<Rightarrow> None
      | Some text \<Rightarrow>
          if py_in LISTED_MARKER text then Some SECTION_LISTED
          else if py_in DELETED_MARKER text then Some SECTION_DELETED
          else None)"

text \<open>
  The section under which the rows of a table are emitted, stated without the running
  variable: the classification of the nearest heading of the latest table, up to and
  including the table itself, whose nearest heading is classified.
  \<open>latest_classified\<close> takes the lists of elements before these tables, in document
  order.  \<open>labelled_tables\<close> puts this section beside the rows of every table, and
  \<open>scrape_labelled\<close> is the loop over tables that are labelled in this way: a table
  without a label is skipped, the rows of a table with a label are scanned under it.
\<close>

definition latest_classified :: "node list list \<Rightarrow> pystr option" where
  "latest_classified befores =
     (case filter (\<lambda>sec. sec \<noteq> None)
             (map (\<lambda>before. classify_heading_spec (find_previous_h2 before)) (rev befores)) of
        [] \<Rightarrow> None
      | sec # secs \<Rightarrow> sec)"

definition effective_section :: "(node list \<times> td_cell list list) list \<Rightarrow> nat \<Rightarrow> pystr option" where
  "effective_section tables j = latest_classified (map fst (take (Suc j) tables))"

definition labelled_tables ::
    "(node list \<times> td_cell list list) list \<Rightarrow> (pystr option \<times> td_cell list list) list" where
  "labelled_tables tables =
     map (\<lambda>j. (effective_section tables j, snd (tables ! j))) [0..<length tables]"

fun scrape_labelled ::
    "env \<Rightarrow> settings \<Rightarrow> pystr \<Rightarrow> bool \<Rightarrow> bool \<Rightarrow> bool
      \<Rightarrow> (pystr option \<times> td_cell list list) list \<Rightarrow> listing list \<Rightarrow> state
      \<Rightarrow> (exn + listing list) \<times> state" where
  "scrape_labelled E cfg date_str fetch_numbers log_callback cancel_check [] results s =
     (Inr results, s)"
| "scrape_labelled E cfg date_str fetch_numbers log_callback cancel_check ((label, rows) # tables)
      results s =
     (case label of
        None \<Rightarrow>
          scrape_labelled E cfg date_str fetch_numbers log_callback cancel_check tables results s
      | Some sec \<Rightarrow>
          (case scrape_rows E cfg date_str fetch_numbers log_callback cancel_check sec rows results s of
             (Inl e, s1) \<Rightarrow> (Inl e, s1)
           | (Inr (Returned r), s1) \<Rightarrow> (Inr r, s1)
           | (Inr (Completed r), s1) \<Rightarrow>
               scrape_labelled E cfg date_str fetch_numbers log_callback cancel_check tables r s1))"

text \<open>
  What the records that a table contributes look like: a table without a label
  contributes none; every record of a table with a label carries the label as its
  section and comes from a row of the table with at least three cells, whose third cell
  is the reason of the record.
\<close>

definition emitted_under :: "pystr option \<Rightarrow> td_cell list list \<Rightarrow> listing list \<Rightarrow> bool" where
  "emitted_under label rows part \<longleftrightarrow>
     (case label of
        None \<Rightarrow> part = []
      | Some sec \<Rightarrow>
          (\<forall>r \<in> set part. l_section r = sec \<and>
             (\<exists>cells \<in> set rows. 3 \<le> length cells \<and> l_reason r = cell_text (cells ! 2))))"

text \<open>
  A page with a second table under a heading that holds neither marker (sonota), and a
  page with a table before every heading, a table under the heading of the listed
  section, a table under a heading with neither marker and a table under the heading of
  the deleted section.
\<close>

definition OTHER_HEADING :: pystr where
  "OTHER_HEADING = [12381, 12398, 20182]"

definition plain_row :: "td_cell list" where
  "plain_row =
     [\<lparr> cell_link = None, cell_text = ascii ''ProductY'' \<rparr>,
      \<lparr> cell_link = None, cell_text = ascii ''Beta'' \<rparr>,
      \<lparr> cell_link = None, cell_text = ascii ''notice'' \<rparr>]"

definition plain_record :: "pystr \<Rightarrow> pystr \<Rightarrow> listing" where
  "plain_record date_str sec =
     \<lparr> l_date = date_str, l_section = sec, l_product_name = ascii ''ProductY'',
       l_company = ascii ''Beta'', l_reason = ascii ''notice'', l_approval_no = [],
       l_certification_no = [], l_detail_url = [], l_pdf_url = [] \<rparr>"

definition carry_page :: "node list" where
  "carry_page = [H2 LISTED_MARKER, Table [product_row], H2 OTHER_HEADING, Table [plain_row]]"

definition sections_page :: "node list" where
  "sections_page =
     [Table [plain_row], H2 LISTED_MARKER, Table [product_row], H2 OTHER_HEADING,
      Table [plain_row], H2 DELETED_MARKER, Table [plain_row]]"

definition carry_env :: env where
  "carry_env =
     \<lparr> listing_page = (\<lambda>url. Inr carry_page),
       body_page = (\<lambda>url. Inl (RequestException, ascii ''unreachable'')),
       pdf_response = (\<lambda>url. Inl (RequestException, ascii ''unreachable'')),
       open_write_error = (\<lambda>path. None),
       cancel_at = None \<rparr>"

text \<open>
  A string that the round trip through the table keeps: it holds no carriage return
  (on reading, the file is opened without \<open>newline=''\<close>, so a carriage return comes back
  as a line feed), UTF-8 can encode it, and it is not longer than the limit of the \<open>csv\<close>
  module for a field.  \<open>dict_listing\<close> is the record whose nine fields are the nine cells
  of a row read from the table.
\<close>

definition storable :: "pystr \<Rightarrow> bool" where
  "storable f \<longleftrightarrow> CR \<notin> set f \<and> list_all encodable f \<and> length f \<le> field_size_limit"

definition dict_listing :: "pydict \<Rightarrow> listing" where
  "dict_listing d =
     \<lparr> l_date = cell_str d KEY_DATE, l_section = cell_str d KEY_SECTION,
       l_product_name = cell_str d KEY_PRODUCT, l_company = cell_str d KEY_COMPANY,
       l_reason = cell_str d KEY_REASON, l_approval_no = cell_str d KEY_APPROVAL,
       l_certification_no = cell_str d KEY_CERTIFICATION,
       l_detail_url = cell_str d KEY_DETAIL_URL, l_pdf_url = cell_str d KEY_PDF_URL \<rparr>"

text \<open>
  An environment in which every file can be written, and four records: one with a
  comma, a quotation mark and a line feed in its fields; one with a carriage return in
  its reason (\<open>a\rb\<close>) and the same record with a line feed in its place; and one whose
  date is one character longer than the limit for a field.
\<close>

definition store_env :: env where
  "store_env =
     \<lparr> listing_page = (\<lambda>url. Inl (RequestException, ascii ''unreachable'')),
       body_page = (\<lambda>url. Inl (RequestException, ascii ''unreachable'')),
       pdf_response = (\<lambda>url. Inl (RequestException, ascii ''unreachable'')),
       open_write_error = (\<lambda>path. None),
       cancel_at = None \<rparr>"

definition tricky_record :: listing where
  "tricky_record =
     \<lparr> l_date = ascii ''2024-01-15'', l_section = SECTION_LISTED,
       l_product_name = ascii ''A,B'', l_company = [115, DQUOTE, 116],
       l_reason = [110, LF, 111], l_approval_no = [], l_certification_no = ascii ''C1'',
       l_detail_url = [], l_pdf_url = ascii ''https://www.info.pmda.go.jp/ygo/pdf/123_456/'' \<rparr>"

definition cr_record :: listing where
  "cr_record =
     \<lparr> l_date = ascii ''2024-01-15'', l_section = SECTION_LISTED,
       l_product_name = ascii ''ProductX'', l_company = ascii ''ACME'',
       l_reason = [97, CR, 98], l_approval_no = [], l_certification_no = [],
       l_detail_url = [], l_pdf_url = [] \<rparr>"

definition lf_record :: listing where
  "lf_record = cr_record\<lparr> l_reason := [97, LF, 98] \<rparr>"

definition oversized_record :: listing where
  "oversized_record = cr_record\<lparr> l_date := replicate (Suc field_size_limit) 65, l_reason := [] \<rparr>"

section \<open>Properties\<close>

subsection \<open>String helpers\<close>

lemma py_replace_Nil: "py_replace [] old [] = []"
  by (simp add: py_replace.simps)

lemma py_strip_chars_Nil: "py_strip_chars chars [] = []"
  by (simp add: py_strip_chars_def py_rstrip_chars_def)

lemma py_split_YGO_PACK_PREFIX: "py_split SLASH YGO_PACK_PREFIX = [ascii ''ygo'', ascii ''pack'']"
  by (simp add: YGO_PACK_PREFIX_def ascii_def)

subsection \<open>C4: the PDF address derived from a detail address\<close>

text \<open>
  C4, as stated, fails: the source removes \<^emph>\<open>every\<close> occurrence of the base address
  (\<open>str.replace\<close>), not only a leading one.  With the default base address and an input
  that holds the base address a second time inside the third path segment, the source
  returns \<open>.../ygo/pdf/1_2/\<close> where stripping the prefix gives \<open>.../ygo/pdf/1https:_/\<close>.
\<close>

theorem convert_detail_url_to_pdf_prefix_counterexample:
  "convert_detail_url_to_pdf DEFAULT_SETTINGS
       (ascii ''https://www.info.pmda.go.jp/ygo/pack/1https://www.info.pmda.go.jp/2'')
     = Inr (ascii ''https://www.info.pmda.go.jp/ygo/pdf/1_2/'') \<and>
   detailToPdf_spec (detail_base_url DEFAULT_SETTINGS)
       (ascii ''https://www.info.pmda.go.jp/ygo/pack/1https://www.info.pmda.go.jp/2'')
     = ascii ''https://www.info.pmda.go.jp/ygo/pdf/1https:_/'' \<and>
   ascii ''https://www.info.pmda.go.jp/ygo/pdf/1_2/'' \<noteq>
     ascii ''https://www.info.pmda.go.jp/ygo/pdf/1https:_/''"
  by code_simp

text \<open>
  C4, amended: \<open>convert_detail_url_to_pdf\<close> never raises, and for every input and every
  base address its result is given by removing every occurrence of the base address from
  the input, stripping leading and trailing slashes and splitting on \<open>/\<close>: with at least
  four segments of which the first two are \<open>ygo\<close> and \<open>pack\<close> it is
  \<open>base + "/ygo/pdf/" + segment[2] + "_" + segment[3] + "/"\<close>, and the empty string for
  every other input, the empty input included.
\<close>

theorem convert_detail_url_to_pdf_formula:
  "convert_detail_url_to_pdf cfg url =
     Inr (let parts = py_split SLASH (py_strip_chars [SLASH] (py_replace url (detail_base_url cfg) []))
          in if 4 \<le> length parts \<and> parts ! 0 = ascii ''ygo'' \<and> parts ! 1 = ascii ''pack''
             then detail_base_url cfg @ ascii ''/ygo/pdf/'' @ parts ! 2 @ ascii ''_'' @
                  parts ! 3 @ ascii ''/''
             else [])"
proof (cases "url = []")
  case True
  then show ?thesis
    by (simp add: convert_detail_url_to_pdf_def py_replace_Nil py_strip_chars_Nil)
next
  case False
  then show ?thesis
    by (simp add: convert_detail_url_to_pdf_def py_split_YGO_PACK_PREFIX Let_def
        YGO_PDF_PREFIX_def ascii_def)
qed

theorem convert_detail_url_to_pdf_formula_witness:
  "convert_detail_url_to_pdf DEFAULT_SETTINGS (ascii ''https://www.info.pmda.go.jp/ygo/pack/123/456'')
     = Inr (ascii ''https://www.info.pmda.go.jp/ygo/pdf/123_456/'') \<and>
   convert_detail_url_to_pdf DEFAULT_SETTINGS (ascii ''https://www.info.pmda.go.jp/ygo/pack/123'')
     = Inr []"
  unfolding convert_detail_url_to_pdf_formula by code_simp

subsection \<open>Evaluation\<close>

lemmas eval_defs =
  ascii_def decode_utf_8_sig_def csv_reader_def field_size_limit_def parse_reset_def
  start_field_char_def parse_add_char_def parse_save_field_def csv_writerow_def
  csv_write_field_def csv_needs_quotes_def csv_double_quotes_def open_read_def
  read_dict_rows_def DictReader_def DictReader_row_def dict_get_def is_target_def
  py_strip_def py_isspace_def add_log_def add_request_def fieldnames_def
  KEY_DATE_def KEY_SECTION_def KEY_PRODUCT_def KEY_COMPANY_def KEY_REASON_def KEY_APPROVAL_def
  KEY_CERTIFICATION_def KEY_DETAIL_URL_def KEY_PDF_URL_def SECTION_LISTED_def SECTION_DELETED_def
  cell_str_def absent_cell_def allowed_trimmed_def allowed_untrimmed_spec_def
  state_with_file_def table_of_def example_pdf_url_def example_row_def dict_of_row_def

subsection \<open>The filter on the rows of the table\<close>

lemma method_strip_cell:
  "method_strip (dict_get r k (PyStr [])) =
     (if absent_cell r k then Inl (AttributeError, ascii ''NoneType object has no attribute strip'')
      else Inr (py_strip (cell_str r k)))"
  by (cases "dict_get r k (PyStr [])") (simp_all add: absent_cell_def cell_str_def)

lemma filter_targets_Inr:
  "\<forall>r \<in> set targets. \<not> absent_cell r KEY_APPROVAL \<and> \<not> absent_cell r KEY_CERTIFICATION \<Longrightarrow>
   filter_targets A C targets filtered = Inr (filtered @ filter (allowed_trimmed A C) targets)"
  by (induction targets arbitrary: filtered) (simp_all add: method_strip_cell allowed_trimmed_def)

lemma filter_targets_Inl:
  "\<exists>r \<in> set targets. absent_cell r KEY_APPROVAL \<or> absent_cell r KEY_CERTIFICATION \<Longrightarrow>
   filter_targets A C targets filtered =
     Inl (AttributeError, ascii ''NoneType object has no attribute strip'')"
  by (induction targets arbitrary: filtered) (auto simp add: method_strip_cell)

lemma SECTION_LISTED_not_Nil: "SECTION_LISTED \<noteq> []"
  by (simp add: SECTION_LISTED_def)

lemma is_target_cell_str:
  "is_target r \<longleftrightarrow> cell_str r KEY_SECTION = SECTION_LISTED \<and> cell_str r KEY_PDF_URL \<noteq> []"
  using SECTION_LISTED_not_Nil
  by (auto simp add: is_target_def cell_str_def dict_get_def split: option.splits pyval.splits)

subsection \<open>C2: the rows that are download targets\<close>

text \<open>
  C2, as stated, fails: the source compares the \<^emph>\<open>trimmed\<close> numbers with the allow
  lists.  A listed row whose approval number is \<open>A100\<close> with a leading space is a
  target under the allow list \<open>{A100}\<close>, although the number as it stands in the table
  is no member of the list (and the certification number is empty).
\<close>

theorem untrimmed_filter_counterexample:
  "fst (load_and_filter_targets (ascii ''list.csv'') True {ascii ''A100''} {}
          (state_with_file (ascii ''list.csv'') spaced_table))
     = Inr [dict_of_row (example_row SECTION_LISTED (ascii '' A100'') [] example_pdf_url)] \<and>
   \<not> allowed_untrimmed_spec {ascii ''A100''} {}
       (dict_of_row (example_row SECTION_LISTED (ascii '' A100'') [] example_pdf_url))"
  by (simp add: eval_defs spaced_table_def load_and_filter_targets_def)

text \<open>
  C2, amended: whenever the table can be read and, with filtering enabled, no row that
  has the listed section and a non-empty document address lacks its approval or
  certification cell, reading the download targets returns a list, and a row is in it
  if and only if it is a row of the table, its section is the listed one, its document
  address is non-empty and, when filtering is enabled, its approval number with
  surrounding whitespace trimmed is non-empty and in the allow-approval set, or its
  certification number trimmed likewise is non-empty and in the allow-certification set.
\<close>

theorem load_and_filter_targets_membership:
  assumes "read_dict_rows s csv_file = Inr rows"
    and "use_filter \<longrightarrow> (\<forall>r \<in> set rows. is_target r \<longrightarrow>
            \<not> absent_cell r KEY_APPROVAL \<and> \<not> absent_cell r KEY_CERTIFICATION)"
  shows "\<exists>targets. fst (load_and_filter_targets csv_file use_filter A C s) = Inr targets \<and>
           (\<forall>r. r \<in> set targets \<longleftrightarrow>
                  r \<in> set rows \<and> cell_str r KEY_SECTION = SECTION_LISTED \<and>
                  cell_str r KEY_PDF_URL \<noteq> [] \<and> (use_filter \<longrightarrow> allowed_trimmed A C r))"
proof (cases use_filter)
  case True
  with assms(2) have ok: "\<forall>r \<in> set (filter is_target rows).
      \<not> absent_cell r KEY_APPROVAL \<and> \<not> absent_cell r KEY_CERTIFICATION"
    by simp
  have "fst (load_and_filter_targets csv_file use_filter A C s)
          = Inr (filter (allowed_trimmed A C) (filter is_target rows))"
    using True assms(1) filter_targets_Inr [OF ok, of A C "[]"]
    by (simp add: load_and_filter_targets_def)
  then show ?thesis
    using True by (auto simp add: is_target_cell_str)
next
  case False
  with assms(1) have "fst (load_and_filter_targets csv_file use_filter A C s)
          = Inr (filter is_target rows)"
    by (simp add: load_and_filter_targets_def)
  then show ?thesis
    using False by (auto simp add: is_target_cell_str)
qed

theorem load_and_filter_targets_membership_witness:
  "read_dict_rows (state_with_file (ascii ''list.csv'') three_row_table) (ascii ''list.csv'')
     = Inr [dict_of_row (example_row SECTION_LISTED (ascii ''A100'') [] example_pdf_url),
            dict_of_row (example_row SECTION_LISTED (ascii ''A999'') [] example_pdf_url),
            dict_of_row (example_row SECTION_DELETED (ascii ''A100'') [] example_pdf_url)] \<and>
   (\<exists>targets.
      fst (load_and_filter_targets (ascii ''list.csv'') True {ascii ''A100''} {}
             (state_with_file (ascii ''list.csv'') three_row_table)) = Inr targets \<and>
      dict_of_row (example_row SECTION_LISTED (ascii ''A100'') [] example_pdf_url) \<in> set targets \<and>
      dict_of_row (example_row SECTION_LISTED (ascii ''A999'') [] example_pdf_url) \<notin> set targets \<and>
      dict_of_row (example_row SECTION_DELETED (ascii ''A100'') [] example_pdf_url) \<notin> set targets)"
proof -
  let ?s = "state_with_file (ascii ''list.csv'') three_row_table"
  let ?rows = "[dict_of_row (example_row SECTION_LISTED (ascii ''A100'') [] example_pdf_url),
                dict_of_row (example_row SECTION_LISTED (ascii ''A999'') [] example_pdf_url),
                dict_of_row (example_row SECTION_DELETED (ascii ''A100'') [] example_pdf_url)]"
  have readable: "read_dict_rows ?s (ascii ''list.csv'') = Inr ?rows"
    by (simp add: eval_defs three_row_table_def)
  have present: "True \<longrightarrow> (\<forall>r \<in> set ?rows. is_target r \<longrightarrow>
      \<not> absent_cell r KEY_APPROVAL \<and> \<not> absent_cell r KEY_CERTIFICATION)"
    by (simp add: eval_defs)
  obtain targets where
    t: "fst (load_and_filter_targets (ascii ''list.csv'') True {ascii ''A100''} {} ?s) = Inr targets"
    and m: "\<forall>r. r \<in> set targets \<longleftrightarrow>
                  r \<in> set ?rows \<and> cell_str r KEY_SECTION = SECTION_LISTED \<and>
                  cell_str r KEY_PDF_URL \<noteq> [] \<and> (True \<longrightarrow> allowed_trimmed {ascii ''A100''} {} r)"
    using load_and_filter_targets_membership [OF readable present, of "{ascii ''A100''}" "{}"]
    by blast
  have "dict_of_row (example_row SECTION_LISTED (ascii ''A100'') [] example_pdf_url) \<in> set targets"
    by (simp add: m eval_defs)
  moreover have
    "dict_of_row (example_row SECTION_LISTED (ascii ''A999'') [] example_pdf_url) \<notin> set targets"
    by (simp add: m eval_defs)
  moreover have
    "dict_of_row (example_row SECTION_DELETED (ascii ''A100'') [] example_pdf_url) \<notin> set targets"
    by (simp add: m eval_defs)
  ultimately show ?thesis
    using readable t by blast
qed

subsection \<open>C10: a row that is too short\<close>

lemma read_dict_rows_files:
  "files s' = files s \<Longrightarrow> read_dict_rows s' csv_file = read_dict_rows s csv_file"
  by (simp add: read_dict_rows_def open_read_def)

lemma load_filter_lists_effect:
  "files (snd (load_filter_lists use_filter hosp_csv s)) = files s \<and>
   requests (snd (load_filter_lists use_filter hosp_csv s)) = requests s"
  by (simp add: load_filter_lists_def add_log_def Let_def split: sum.splits prod.splits)

lemma load_and_filter_targets_raises:
  assumes "read_dict_rows s csv_file = Inr rows"
    and "\<exists>r \<in> set rows. is_target r \<and>
            (absent_cell r KEY_APPROVAL \<or> absent_cell r KEY_CERTIFICATION)"
  shows "load_and_filter_targets csv_file True A C s =
           (Inl (AttributeError, ascii ''NoneType object has no attribute strip''), s)"
proof -
  from assms(2) have "\<exists>r \<in> set (filter is_target rows).
      absent_cell r KEY_APPROVAL \<or> absent_cell r KEY_CERTIFICATION"
    by auto
  from filter_targets_Inl [OF this, of A C "[]"] assms(1) show ?thesis
    by (simp add: load_and_filter_targets_def)
qed

text \<open>
  C10, as stated, fails: a row with fewer fields than the header raises nothing unless
  it still qualifies as a target.  In the column order the program writes, the document
  address is the last column, so a short row has no address, is no target, and is
  dropped before the trimming: the table with a full row and a row of three fields gives
  the full row as the only target, with filtering enabled.
\<close>

theorem short_row_is_skipped_counterexample:
  "read_dict_rows (state_with_file (ascii ''list.csv'') short_row_table) (ascii ''list.csv'')
     = Inr [dict_of_row (example_row SECTION_LISTED (ascii ''A100'') [] example_pdf_url),
            [(KEY_DATE, PyStr (ascii ''2024-01-16'')), (KEY_SECTION, PyStr SECTION_LISTED),
             (KEY_PRODUCT, PyStr (ascii ''ProductY'')), (KEY_COMPANY, PyNone),
             (KEY_REASON, PyNone), (KEY_APPROVAL, PyNone), (KEY_CERTIFICATION, PyNone),
             (KEY_DETAIL_URL, PyNone), (KEY_PDF_URL, PyNone)]] \<and>
   fst (load_and_filter_targets (ascii ''list.csv'') True {ascii ''A100''} {}
          (state_with_file (ascii ''list.csv'') short_row_table))
     = Inr [dict_of_row (example_row SECTION_LISTED (ascii ''A100'') [] example_pdf_url)]"
  by (simp add: eval_defs short_row_table_def load_and_filter_targets_def)

text \<open>
  C10, amended: when the table can be read, reading the download targets with filtering
  enabled raises if and only if some row that qualifies as a target (listed section,
  non-empty document address) lacks its approval or its certification cell; the
  exception is the \<open>AttributeError\<close> of trimming \<open>None\<close>; and \<open>download_thread\<close> then logs
  the error and ends with no file written and no address requested.  A short row that
  does not qualify is skipped without an exception.
\<close>

theorem absent_cell_of_target_aborts_download:
  assumes "read_dict_rows s csv_file = Inr rows"
  shows "((\<exists>e. fst (load_and_filter_targets csv_file True A C s) = Inl e) \<longleftrightarrow>
            (\<exists>r \<in> set rows. is_target r \<and>
               (absent_cell r KEY_APPROVAL \<or> absent_cell r KEY_CERTIFICATION))) \<and>
         ((\<exists>r \<in> set rows. is_target r \<and>
               (absent_cell r KEY_APPROVAL \<or> absent_cell r KEY_CERTIFICATION)) \<longrightarrow>
            fst (load_and_filter_targets csv_file True A C s) =
              Inl (AttributeError, ascii ''NoneType object has no attribute strip'') \<and>
            files (download_thread E csv_file out_dir True hosp_csv skip_exist s) = files s \<and>
            requests (download_thread E csv_file out_dir True hosp_csv skip_exist s) = requests s \<and>
            (\<exists>e. last (logged (download_thread E csv_file out_dir True hosp_csv skip_exist s))
                   = LogError e))"
proof (intro conjI impI)
  show "(\<exists>e. fst (load_and_filter_targets csv_file True A C s) = Inl e) \<longleftrightarrow>
          (\<exists>r \<in> set rows. is_target r \<and>
             (absent_cell r KEY_APPROVAL \<or> absent_cell r KEY_CERTIFICATION))"
  proof
    assume raised: "\<exists>e. fst (load_and_filter_targets csv_file True A C s) = Inl e"
    show "\<exists>r \<in> set rows. is_target r \<and>
            (absent_cell r KEY_APPROVAL \<or> absent_cell r KEY_CERTIFICATION)"
    proof (rule ccontr)
      assume "\<not> ?thesis"
      then have "True \<longrightarrow> (\<forall>r \<in> set rows. is_target r \<longrightarrow>
          \<not> absent_cell r KEY_APPROVAL \<and> \<not> absent_cell r KEY_CERTIFICATION)"
        by blast
      then have "\<forall>r \<in> set (filter is_target rows).
          \<not> absent_cell r KEY_APPROVAL \<and> \<not> absent_cell r KEY_CERTIFICATION"
        by simp
      from filter_targets_Inr [OF this, of A C "[]"] assms
      have "\<exists>targets. fst (load_and_filter_targets csv_file True A C s) = Inr targets"
        by (simp add: load_and_filter_targets_def)
      with raised show False by auto
    qed
  next
    assume "\<exists>r \<in> set rows. is_target r \<and>
              (absent_cell r KEY_APPROVAL \<or> absent_cell r KEY_CERTIFICATION)"
    from load_and_filter_targets_raises [OF assms this, of A C]
    show "\<exists>e. fst (load_and_filter_targets csv_file True A C s) = Inl e"
      by simp
  qed
next
  assume bad: "\<exists>r \<in> set rows. is_target r \<and>
                 (absent_cell r KEY_APPROVAL \<or> absent_cell r KEY_CERTIFICATION)"
  from load_and_filter_targets_raises [OF assms bad, of A C]
  show "fst (load_and_filter_targets csv_file True A C s) =
          Inl (AttributeError, ascii ''NoneType object has no attribute strip'')"
    by simp
  obtain res s1 where l: "load_filter_lists True hosp_csv s = (res, s1)"
    by (cases "load_filter_lists True hosp_csv s")
  from load_filter_lists_effect [of True hosp_csv s] l
  have eff: "files s1 = files s" "requests s1 = requests s"
    by simp_all
  have rd: "read_dict_rows s1 csv_file = Inr rows"
    using read_dict_rows_files [OF eff(1)] assms by simp
  have thread: "\<exists>e. download_thread E csv_file out_dir True hosp_csv skip_exist s = add_log (LogError e) s1"
  proof (cases res)
    case (Inl e)
    with l show ?thesis by (cases e) (auto simp add: download_thread_def)
  next
    case (Inr sets)
    obtain TA TC where sets: "sets = (TA, TC)" by (cases sets)
    from load_and_filter_targets_raises [OF rd bad, of TA TC] l Inr sets
    show ?thesis by (auto simp add: download_thread_def)
  qed
  then obtain e where
    th: "download_thread E csv_file out_dir True hosp_csv skip_exist s = add_log (LogError e) s1"
    by blast
  show "files (download_thread E csv_file out_dir True hosp_csv skip_exist s) = files s"
    using th eff by (simp add: add_log_def)
  show "requests (download_thread E csv_file out_dir True hosp_csv skip_exist s) = requests s"
    using th eff by (simp add: add_log_def)
  show "\<exists>e. last (logged (download_thread E csv_file out_dir True hosp_csv skip_exist s))
              = LogError e"
    using th by (simp add: add_log_def)
qed

theorem absent_cell_of_target_aborts_download_witness:
  "read_dict_rows (state_with_tables reordered_short_table) (ascii ''list.csv'')
     = Inr [[(KEY_SECTION, PyStr SECTION_LISTED), (KEY_PDF_URL, PyStr example_pdf_url),
             (KEY_APPROVAL, PyNone), (KEY_CERTIFICATION, PyNone)]] \<and>
   is_target [(KEY_SECTION, PyStr SECTION_LISTED), (KEY_PDF_URL, PyStr example_pdf_url),
              (KEY_APPROVAL, PyNone), (KEY_CERTIFICATION, PyNone)] \<and>
   absent_cell [(KEY_SECTION, PyStr SECTION_LISTED), (KEY_PDF_URL, PyStr example_pdf_url),
                (KEY_APPROVAL, PyNone), (KEY_CERTIFICATION, PyNone)] KEY_APPROVAL \<and>
   fst (load_and_filter_targets (ascii ''list.csv'') True {ascii ''A100''} {}
          (state_with_tables reordered_short_table))
     = Inl (AttributeError, ascii ''NoneType object has no attribute strip'') \<and>
   files (download_thread serving_env (ascii ''list.csv'') (ascii ''out'') True
            (ascii ''hospital.csv'') False (state_with_tables reordered_short_table))
     = files (state_with_tables reordered_short_table) \<and>
   requests (download_thread serving_env (ascii ''list.csv'') (ascii ''out'') True
               (ascii ''hospital.csv'') False (state_with_tables reordered_short_table)) = []"
proof -
  let ?s = "state_with_tables reordered_short_table"
  let ?r = "[(KEY_SECTION, PyStr SECTION_LISTED), (KEY_PDF_URL, PyStr example_pdf_url),
             (KEY_APPROVAL, PyNone), (KEY_CERTIFICATION, PyNone)]"
  have readable: "read_dict_rows ?s (ascii ''list.csv'') = Inr [?r]"
    by (simp add: eval_defs state_with_tables_def reordered_short_table_def)
  have target: "is_target ?r"
    by (simp add: eval_defs)
  have absent: "absent_cell ?r KEY_APPROVAL"
    by (simp add: eval_defs)
  have bad: "\<exists>r \<in> set [?r]. is_target r \<and>
               (absent_cell r KEY_APPROVAL \<or> absent_cell r KEY_CERTIFICATION)"
    using target absent by simp
  have start: "requests ?s = []"
    by (simp add: state_with_tables_def)
  from absent_cell_of_target_aborts_download [OF readable,
      of "{ascii ''A100''}" "{}" serving_env "ascii ''out''" "ascii ''hospital.csv''" False] bad
  show ?thesis
    using readable target absent start by simp
qed

subsection \<open>C6: the column of an identifier set\<close>

lemma py_in_not_Nil: "py_in marker col \<Longrightarrow> marker \<noteq> [] \<Longrightarrow> col \<noteq> []"
  by (cases col) simp_all

lemma last_matching_column_Cons:
  "last_matching_column marker (col # cols) =
     (case last_matching_column marker cols of
        Some c \<Rightarrow> Some c
      | None \<Rightarrow> if py_in marker col then Some col else None)"
  by (simp add: last_matching_column_def split: list.splits)

lemma find_columns_last:
  "find_columns header approval_col certification_col =
     (case last_matching_column KEY_APPROVAL header of None \<Rightarrow> approval_col | Some c \<Rightarrow> Some c,
      case last_matching_column KEY_CERTIFICATION header of
        None \<Rightarrow> certification_col | Some c \<Rightarrow> Some c)"
proof (induction header arbitrary: approval_col certification_col)
  case Nil
  show ?case by (simp add: last_matching_column_def)
next
  case (Cons col cols)
  show ?case
    by (simp add: Cons.IH last_matching_column_Cons split: option.splits)
qed

lemma last_matching_column_not_Nil:
  assumes "last_matching_column marker header = Some c" and "marker \<noteq> []"
  shows "c \<noteq> []"
proof -
  from assms(1) obtain col cols where
    f: "filter (py_in marker) header = col # cols" and c: "c = last (col # cols)"
    by (auto simp add: last_matching_column_def split: list.splits)
  have "last (col # cols) \<in> set (col # cols)"
    by (rule last_in_set) simp
  with f c have "c \<in> set (filter (py_in marker) header)"
    by simp
  then have "py_in marker c" by simp
  with assms(2) show ?thesis by (simp add: py_in_not_Nil)
qed

lemma add_number_column:
  "col = None \<or> (\<exists>c. col = Some c \<and> c \<noteq> []) \<Longrightarrow>
   add_number col row numbers = numbers \<union> column_numbers col [row]"
  by (auto simp add: add_number_def column_numbers_def cell_str_def dict_get_def
      split: option.splits pyval.splits)

lemma column_numbers_Cons:
  "column_numbers col (row # rows) = column_numbers col [row] \<union> column_numbers col rows"
  by (auto simp add: column_numbers_def split: option.splits)

lemma fold_add_number:
  "col = None \<or> (\<exists>c. col = Some c \<and> c \<noteq> []) \<Longrightarrow>
   fold (add_number col) rows numbers = numbers \<union> column_numbers col rows"
proof (induction rows arbitrary: numbers)
  case Nil
  show ?case by (simp add: column_numbers_def split: option.splits)
next
  case (Cons row rows)
  have "fold (add_number col) (row # rows) numbers
          = fold (add_number col) rows (add_number col row numbers)"
    by simp
  also have "\<dots> = add_number col row numbers \<union> column_numbers col rows"
    by (rule Cons.IH [OF Cons.prems])
  also have "\<dots> = (numbers \<union> column_numbers col [row]) \<union> column_numbers col rows"
    by (simp only: add_number_column [OF Cons.prems])
  also have "\<dots> = numbers \<union> column_numbers col (row # rows)"
    by (simp only: column_numbers_Cons [of col row rows] Un_assoc)
  finally show ?case .
qed

text \<open>
  C6, as stated, fails: the loop over the header has no \<open>break\<close>, so the \<^emph>\<open>last\<close>
  matching column wins.  With the header of two columns that both hold the approval
  marker and the row \<open>A1,B2\<close>, the approval set is \<open>{B2}\<close>; the first matching column
  would give \<open>{A1}\<close>.
\<close>

theorem first_matching_column_counterexample:
  "load_hospital_device_list (state_with_file (ascii ''hospital.csv'') two_column_table)
       (ascii ''hospital.csv'')
     = Inr ({ascii ''B2''}, {}) \<and>
   column_numbers (first_matching_column_spec KEY_APPROVAL two_approval_columns)
       [DictReader_row two_approval_columns [ascii ''A1'', ascii ''B2'']]
     = {ascii ''A1''} \<and>
   ascii ''A1'' \<noteq> ascii ''B2''"
  by (simp add: eval_defs load_hospital_device_list_def two_column_table_def
      two_approval_columns_def add_number_def column_numbers_def first_matching_column_spec_def)

text \<open>
  C6, amended: for every allow-list file that the reader parses into a header and
  records, the filter loader builds each identifier set from the \<^emph>\<open>last\<close> column in
  header order whose name holds the marker (the approval marker for the approval set,
  the certification marker for the certification set): the set is the trimmed values of
  the non-empty cells of that column, and it is empty when no column matches.
\<close>

theorem load_hospital_device_list_last_column:
  assumes "open_read s csv_path = Inr lines"
    and "csv_reader lines = Inr (header # records)"
  shows "load_hospital_device_list s csv_path =
           Inr (column_numbers (last_matching_column KEY_APPROVAL header)
                  (map (DictReader_row header) (filter (\<lambda>r. r \<noteq> []) records)),
                column_numbers (last_matching_column KEY_CERTIFICATION header)
                  (map (DictReader_row header) (filter (\<lambda>r. r \<noteq> []) records)))"
proof -
  have a: "last_matching_column KEY_APPROVAL header = None \<or>
           (\<exists>c. last_matching_column KEY_APPROVAL header = Some c \<and> c \<noteq> [])"
    using last_matching_column_not_Nil [of KEY_APPROVAL header]
    by (cases "last_matching_column KEY_APPROVAL header") (simp_all add: KEY_APPROVAL_def)
  have c: "last_matching_column KEY_CERTIFICATION header = None \<or>
           (\<exists>c. last_matching_column KEY_CERTIFICATION header = Some c \<and> c \<noteq> [])"
    using last_matching_column_not_Nil [of KEY_CERTIFICATION header]
    by (cases "last_matching_column KEY_CERTIFICATION header") (simp_all add: KEY_CERTIFICATION_def)
  have cols: "find_columns header None None =
      (last_matching_column KEY_APPROVAL header, last_matching_column KEY_CERTIFICATION header)"
    by (simp add: find_columns_last split: option.splits)
  show ?thesis
    using assms
    by (simp add: load_hospital_device_list_def DictReader_def cols
        fold_add_number [OF a] fold_add_number [OF c])
qed

theorem load_hospital_device_list_last_column_witness:
  "open_read (state_with_file (ascii ''hospital.csv'') two_column_table) (ascii ''hospital.csv'')
     = Inr [KEY_APPROVAL @ [COMMA, 26087] @ KEY_APPROVAL @ [LF], ascii ''A1,B2'' @ [LF]] \<and>
   csv_reader [KEY_APPROVAL @ [COMMA, 26087] @ KEY_APPROVAL @ [LF], ascii ''A1,B2'' @ [LF]]
     = Inr [two_approval_columns, [ascii ''A1'', ascii ''B2'']] \<and>
   last_matching_column KEY_APPROVAL two_approval_columns = Some (26087 # KEY_APPROVAL) \<and>
   load_hospital_device_list (state_with_file (ascii ''hospital.csv'') two_column_table)
       (ascii ''hospital.csv'')
     = Inr ({ascii ''B2''}, {})"
proof -
  let ?s = "state_with_file (ascii ''hospital.csv'') two_column_table"
  let ?lines = "[KEY_APPROVAL @ [COMMA, 26087] @ KEY_APPROVAL @ [LF], ascii ''A1,B2'' @ [LF]]"
  have opened: "open_read ?s (ascii ''hospital.csv'') = Inr ?lines"
    by (simp add: eval_defs two_column_table_def two_approval_columns_def)
  have parsed: "csv_reader ?lines = Inr (two_approval_columns # [[ascii ''A1'', ascii ''B2'']])"
    by (simp add: eval_defs two_approval_columns_def)
  have col: "last_matching_column KEY_APPROVAL two_approval_columns = Some (26087 # KEY_APPROVAL)"
    by (simp add: last_matching_column_def two_approval_columns_def KEY_APPROVAL_def)
  have nocol: "last_matching_column KEY_CERTIFICATION two_approval_columns = None"
    by (simp add: last_matching_column_def two_approval_columns_def KEY_APPROVAL_def
        KEY_CERTIFICATION_def)
  have "load_hospital_device_list ?s (ascii ''hospital.csv'') = Inr ({ascii ''B2''}, {})"
    unfolding load_hospital_device_list_last_column [OF opened parsed] col nocol
    by (simp add: eval_defs column_numbers_def two_approval_columns_def)
  with opened parsed col show ?thesis by simp
qed

subsection \<open>C8: the file name of a download\<close>

lemma py_replace_char:
  "py_replace s [c] [u] = map (\<lambda>x. if x = c then u else x) s"
proof (induction s)
  case Nil
  show ?case by (simp add: py_replace.simps)
next
  case (Cons x xs)
  show ?case
    by (subst py_replace.simps) (simp add: Cons.IH)
qed

lemma fold_map_chars:
  "fold (\<lambda>char. map (\<lambda>x. if x = char then u else x)) chars s =
     map (\<lambda>x. if x \<in> set chars then u else x) s"
proof (induction chars arbitrary: s)
  case Nil
  show ?case by simp
next
  case (Cons c cs)
  have "fold (\<lambda>char. map (\<lambda>x. if x = char then u else x)) (c # cs) s
          = fold (\<lambda>char. map (\<lambda>x. if x = char then u else x)) cs
              (map (\<lambda>x. if x = c then u else x) s)"
    by simp
  also have "\<dots> = map (\<lambda>x. if x \<in> set cs then u else x) (map (\<lambda>x. if x = c then u else x) s)"
    by (rule Cons.IH)
  also have "\<dots> = map (\<lambda>x. if x \<in> set (c # cs) then u else x) s"
    by auto
  finally show ?case .
qed

lemma sanitized_short_name:
  "fold (\<lambda>char short. py_replace short [char] (ascii ''_'')) invalid_chars s =
     map (\<lambda>x. if x \<in> set invalid_chars then 95 else x) s"
proof -
  have "(\<lambda>char short. py_replace short [char] (ascii ''_''))
          = (\<lambda>char. map (\<lambda>x. if x = char then 95 else x))"
    by (intro ext) (simp add: ascii_def py_replace_char)
  then show ?thesis
    by (simp only: fold_map_chars)
qed

lemma py_split_no_separator: "p \<in> set (py_split sep s) \<Longrightarrow> sep \<notin> set p"
proof (induction s arbitrary: p)
  case Nil
  then show ?case by simp
next
  case (Cons c cs)
  show ?case
  proof (cases "c = sep")
    case True
    with Cons show ?thesis by auto
  next
    case False
    show ?thesis
    proof (cases "py_split sep cs")
      case Nil
      with False Cons.prems show ?thesis by simp
    next
      case (Cons q qs)
      with False Cons.prems Cons.IH [of q] Cons.IH [of p] show ?thesis
        by auto
    qed
  qed
qed

lemma py_split_not_Nil: "py_split sep s \<noteq> []"
  by (cases s) (simp_all split: list.splits)

lemma extract_doc_id_no_slash:
  "extract_doc_id_from_url url = Some doc_id \<Longrightarrow> SLASH \<notin> set doc_id"
proof -
  assume "extract_doc_id_from_url url = Some doc_id"
  then have "doc_id = last (py_split SLASH (py_strip_chars [SLASH] url))"
    by (simp add: extract_doc_id_from_url_def Let_def py_split_not_Nil)
  then have "doc_id \<in> set (py_split SLASH (py_strip_chars [SLASH] url))"
    by (simp add: py_split_not_Nil)
  then show ?thesis by (rule py_split_no_separator)
qed

text \<open>
  C8, as stated, fails: only the part of the file name that comes from the product name
  is cleaned.  The document identifier is the last segment of the document address as it
  stands, so for a listed row with the name \<open>A:B\<close> and an address that ends in
  \<open>123_456?lang=ja/\<close> the file name is \<open>123_456?lang=ja_A_B.pdf\<close>, which holds a
  question mark.
\<close>

theorem filename_keeps_identifier_counterexample:
  "is_target query_row \<and>
   58 \<in> set (cell_str query_row KEY_PRODUCT) \<and>
   58 \<in> set invalid_chars \<and>
   target_filename query_row =
     Inr (Some (ascii ''A:B'', ascii ''https://www.info.pmda.go.jp/ygo/pdf/123_456?lang=ja/'',
                ascii ''123_456?lang=ja_A_B.pdf'')) \<and>
   63 \<in> set (ascii ''123_456?lang=ja_A_B.pdf'') \<and>
   63 \<in> set invalid_chars"
  by (simp add: eval_defs query_row_def target_filename_def extract_doc_id_from_url_def
      py_strip_chars_def py_rstrip_chars_def make_filename_def py_replace_char
      invalid_chars_def PDF_EXTENSION_def)

text \<open>
  C8, amended: for every row for which the download orchestrator generates a file name,
  the name is the document identifier (the last segment of the document address, which
  holds no slash), followed, unless it is empty, by \<open>_\<close> and the first ten characters of
  the product name with each of the characters \<open>\ / : * ? " < > |\<close> replaced by \<open>_\<close>,
  followed by \<open>.pdf\<close>.  The part that comes from the product name holds none of those
  characters, and the whole file name holds none of them whenever the document
  identifier holds none.
\<close>

theorem target_filename_sanitized:
  assumes "target_filename row = Inr (Some (name, url, filename))"
  shows "\<exists>doc_id short.
           extract_doc_id_from_url url = Some doc_id \<and> SLASH \<notin> set doc_id \<and>
           short = map (\<lambda>c. if c \<in> set invalid_chars then 95 else c) (take 10 name) \<and>
           filename = doc_id @ (if short = [] then [] else ascii ''_'' @ short) @ ascii ''.pdf'' \<and>
           set short \<inter> set invalid_chars = {} \<and>
           (set doc_id \<inter> set invalid_chars = {} \<longrightarrow> set filename \<inter> set invalid_chars = {})"
proof -
  from assms obtain doc_id where
    d: "extract_doc_id_from_url url = Some doc_id" and
    f: "filename = make_filename doc_id name"
    by (auto simp add: target_filename_def split: pyval.splits option.splits if_splits)
  let ?short = "map (\<lambda>c. if c \<in> set invalid_chars then 95 else c) (take 10 name)"
  have clean: "set ?short \<inter> set invalid_chars = {}"
    by (auto simp add: invalid_chars_def)
  have name: "filename = doc_id @ (if ?short = [] then [] else ascii ''_'' @ ?short) @ ascii ''.pdf''"
    using f by (simp add: make_filename_def sanitized_short_name PDF_EXTENSION_def)
  have fixed: "set (ascii ''_'') \<inter> set invalid_chars = {}"
    "set (ascii ''.pdf'') \<inter> set invalid_chars = {}"
    by (simp_all add: ascii_def invalid_chars_def)
  have whole: "set doc_id \<inter> set invalid_chars = {} \<longrightarrow> set filename \<inter> set invalid_chars = {}"
    using clean fixed unfolding name by (auto split: if_splits)
  from d extract_doc_id_no_slash [OF d] name clean whole show ?thesis
    by blast
qed

theorem target_filename_sanitized_witness:
  "target_filename
       (dict_of_row (example_row SECTION_LISTED (ascii ''A100'') [] example_pdf_url))
     = Inr (Some (ascii ''ProductX'', example_pdf_url, ascii ''123_456_ProductX.pdf'')) \<and>
   (\<exists>doc_id short.
      extract_doc_id_from_url example_pdf_url = Some doc_id \<and> SLASH \<notin> set doc_id \<and>
      short = map (\<lambda>c. if c \<in> set invalid_chars then 95 else c) (take 10 (ascii ''ProductX'')) \<and>
      ascii ''123_456_ProductX.pdf''
        = doc_id @ (if short = [] then [] else ascii ''_'' @ short) @ ascii ''.pdf'' \<and>
      set short \<inter> set invalid_chars = {} \<and>
      set (ascii ''123_456_ProductX.pdf'') \<inter> set invalid_chars = {})"
proof -
  have made: "target_filename
       (dict_of_row (example_row SECTION_LISTED (ascii ''A100'') [] example_pdf_url))
     = Inr (Some (ascii ''ProductX'', example_pdf_url, ascii ''123_456_ProductX.pdf''))"
    by (simp add: eval_defs target_filename_def extract_doc_id_from_url_def
      py_strip_chars_def py_rstrip_chars_def make_filename_def py_replace_char
      invalid_chars_def PDF_EXTENSION_def)
  have ok: "set (ascii ''123_456_ProductX.pdf'') \<inter> set invalid_chars = {}"
    by (simp add: ascii_def invalid_chars_def)
  from target_filename_sanitized [OF made] ok made show ?thesis
    by blast
qed

subsection \<open>C9: a download that fails while the body is streamed\<close>

text \<open>
  C9: \<open>download_file\<close> is not atomic on failure.  When the response has status 200, the
  destination can be opened and the transport breaks while the body is streamed,
  \<open>download_file\<close> returns the failed outcome with the text of the exception, and the
  destination file exists and holds the chunks received before the break.  A later run
  of \<open>_download_files\<close> with skip-existing, in any environment in which nobody cancels,
  counts a row with that destination as skipped and requests nothing.
\<close>

theorem download_file_not_atomic:
  assumes "pdf_response E url = Inr resp"
    and "status_code resp = 200"
    and "open_write_error E save_path = None"
    and "body_error resp = Some e"
    and "target_filename row = Inr (Some (name, url, filename))"
    and "save_path = os_path_join pdf_dir filename"
    and "cancel_at E' = None"
  shows "fst (download_file E url save_path s) = (False, Some (snd e)) \<and>
         files (snd (download_file E url save_path s)) save_path = Some (concat (body_chunks resp)) \<and>
         fst (download_files E' [row] pdf_dir True (snd (download_file E url save_path s)))
           = Inr (0, 0, 1) \<and>
         requests (snd (download_files E' [row] pdf_dir True (snd (download_file E url save_path s))))
           = requests (snd (download_file E url save_path s))"
proof -
  let ?s1 = "snd (download_file E url save_path s)"
  have failed: "fst (download_file E url save_path s) = (False, Some (snd e))"
    using assms(1-4) by (simp add: download_file_def Let_def)
  have written: "files ?s1 save_path = Some (concat (body_chunks resp))"
    using assms(1-4) by (simp add: download_file_def Let_def add_request_def)
  then have there: "os_path_exists (add_log ev (?s1\<lparr>polls := p\<rparr>)) save_path" for ev p
    by (simp add: os_path_exists_def add_log_def)
  have later: "download_files E' [row] pdf_dir True ?s1 =
      (Inr (0, 0, 1),
       add_log LogSkipped (add_log (LogDownloadRow 1 1 (take 30 name)) (?s1\<lparr>polls := Suc (polls ?s1)\<rparr>)))"
    using assms(5-7) there
    by (simp add: download_files_def read_is_running_def Let_def)
  show ?thesis
    using failed written by (simp add: later add_log_def)
qed

theorem download_file_not_atomic_witness:
  "fst (download_file broken_env example_pdf_url (ascii ''out/pdf/123_456_ProductX.pdf'') empty_state)
     = (False, Some (ascii ''Connection broken'')) \<and>
   files (snd (download_file broken_env example_pdf_url (ascii ''out/pdf/123_456_ProductX.pdf'')
                 empty_state)) (ascii ''out/pdf/123_456_ProductX.pdf'')
     = Some (ascii ''%PDF-1.4'') \<and>
   fst (download_files serving_env
          [dict_of_row (example_row SECTION_LISTED (ascii ''A100'') [] example_pdf_url)]
          (ascii ''out/pdf'') True
          (snd (download_file broken_env example_pdf_url (ascii ''out/pdf/123_456_ProductX.pdf'')
                  empty_state)))
     = Inr (0, 0, 1) \<and>
   requests (snd (download_files serving_env
          [dict_of_row (example_row SECTION_LISTED (ascii ''A100'') [] example_pdf_url)]
          (ascii ''out/pdf'') True
          (snd (download_file broken_env example_pdf_url (ascii ''out/pdf/123_456_ProductX.pdf'')
                  empty_state))))
     = [example_pdf_url]"
proof -
  let ?resp = "\<lparr> status_code = 200, body_chunks = [ascii ''%PDF-1.4''],
                  body_error = Some (RequestException, ascii ''Connection broken'') \<rparr>"
  let ?row = "dict_of_row (example_row SECTION_LISTED (ascii ''A100'') [] example_pdf_url)"
  have answer: "pdf_response broken_env example_pdf_url = Inr ?resp"
    by (simp add: broken_env_def)
  have status: "status_code ?resp = 200"
    by simp
  have opened: "open_write_error broken_env (ascii ''out/pdf/123_456_ProductX.pdf'') = None"
    by (simp add: broken_env_def)
  have broken: "body_error ?resp = Some (RequestException, ascii ''Connection broken'')"
    by simp
  have made: "target_filename ?row
      = Inr (Some (ascii ''ProductX'', example_pdf_url, ascii ''123_456_ProductX.pdf''))"
    by (simp add: eval_defs target_filename_def extract_doc_id_from_url_def
      py_strip_chars_def py_rstrip_chars_def make_filename_def py_replace_char
      invalid_chars_def PDF_EXTENSION_def)
  have path: "ascii ''out/pdf/123_456_ProductX.pdf''
      = os_path_join (ascii ''out/pdf'') (ascii ''123_456_ProductX.pdf'')"
    by (simp add: os_path_join_def ascii_def)
  have nobody: "cancel_at serving_env = None"
    by (simp add: serving_env_def)
  have first: "requests (snd (download_file broken_env example_pdf_url
      (ascii ''out/pdf/123_456_ProductX.pdf'') empty_state)) = [example_pdf_url]"
    by (simp add: download_file_def broken_env_def add_request_def empty_state_def Let_def)
  from download_file_not_atomic [OF answer status opened broken made path nobody, of empty_state]
  show ?thesis
    by (simp add: first)
qed

subsection \<open>Runs of the listing fetcher with and without a cancel request\<close>

lemma check_cancel_None:
  "check_cancel (E\<lparr>cancel_at := None\<rparr>) cancel_check s =
     (False, if cancel_check then s\<lparr>polls := Suc (polls s)\<rparr> else s)"
  by (simp add: check_cancel_def read_is_running_def)

lemma check_cancel_Some:
  "check_cancel (E\<lparr>cancel_at := Some c\<rparr>) cancel_check s =
     (cancel_check \<and> \<not> polls s < c, if cancel_check then s\<lparr>polls := Suc (polls s)\<rparr> else s)"
  by (simp add: check_cancel_def read_is_running_def)

lemma check_cancel_polls: "polls s \<le> polls (snd (check_cancel E cancel_check s))"
  by (simp add: check_cancel_def read_is_running_def split: prod.splits)

lemma fetch_approval_number_cancel_at:
  "fetch_approval_number (E\<lparr>cancel_at := x\<rparr>) cfg detail_url log_callback s =
     fetch_approval_number E cfg detail_url log_callback s"
  by (simp add: fetch_approval_number_def split: sum.splits)

lemma fetch_approval_number_polls:
  "polls (snd (fetch_approval_number E cfg detail_url log_callback s)) = polls s"
  by (simp add: fetch_approval_number_def add_request_def add_log_def Let_def
      split: sum.splits prod.splits)

lemma fetch_approval_number_fst:
  "fst (fetch_approval_number E cfg detail_url log_callback s) = fetched_numbers E cfg detail_url"
  by (simp add: fetch_approval_number_def fetched_numbers_def Let_def split: sum.splits prod.splits)

lemma scrape_row_polls:
  "polls s \<le> polls (snd (scrape_row E cfg date_str fetch_numbers log_callback cancel_check
                              current_section cells results s))"
proof -
  have f: "polls (snd (fetch_approval_number E cfg u l t)) = polls t" for u l t
    by (rule fetch_approval_number_polls)
  show ?thesis
    unfolding scrape_row_def check_cancel_def read_is_running_def Let_def
    using f
    by (auto simp add: add_log_def split: prod.splits sum.splits if_splits
        dest!: arg_cong [where f = "\<lambda>p. polls (snd p)"])
qed

lemma scrape_row_same:
  assumes "polls (snd (scrape_row (E\<lparr>cancel_at := None\<rparr>) cfg date_str fetch_numbers log_callback
                         cancel_check current_section cells results s)) \<le> c"
  shows "scrape_row (E\<lparr>cancel_at := Some c\<rparr>) cfg date_str fetch_numbers log_callback
           cancel_check current_section cells results s =
         scrape_row (E\<lparr>cancel_at := None\<rparr>) cfg date_str fetch_numbers log_callback
           cancel_check current_section cells results s"
proof -
  have f: "polls (snd (fetch_approval_number E cfg u l t)) = polls t" for u l t
    by (rule fetch_approval_number_polls)
  show ?thesis
    using assms f
    unfolding scrape_row_def check_cancel_None check_cancel_Some Let_def
      fetch_approval_number_cancel_at
    by (auto simp add: add_log_def split: prod.splits sum.splits if_splits
        dest!: arg_cong [where f = "\<lambda>p. polls (snd p)"])
qed

lemma scrape_row_fst:
  "fst (scrape_row (E\<lparr>cancel_at := None\<rparr>) cfg date_str fetch_numbers log_callback cancel_check
          current_section cells results s) =
   fst (scrape_row (E\<lparr>cancel_at := None\<rparr>) cfg date_str fetch_numbers log_callback cancel_check
          current_section cells results s')"
  unfolding scrape_row_def check_cancel_None Let_def fetch_approval_number_cancel_at
  by (auto simp add: fetch_approval_number_fst split: prod.splits sum.splits
      dest!: arg_cong [where f = fst])

lemma scrape_row_not_returned:
  "fst (scrape_row (E\<lparr>cancel_at := None\<rparr>) cfg date_str fetch_numbers log_callback cancel_check
          current_section cells results s) \<noteq> Inr (Returned r)"
  unfolding scrape_row_def check_cancel_None Let_def
  by (auto split: prod.splits sum.splits)

lemma scrape_row_dates:
  assumes "fst (scrape_row E cfg date_str fetch_numbers log_callback cancel_check
                  current_section cells results s) = Inr x"
  shows "\<forall>r \<in> set (exit_results x). r \<in> set results \<or> l_date r = date_str"
  using assms
  unfolding scrape_row_def Let_def append_row_def
  by (auto split: prod.splits sum.splits if_splits)

lemma scrape_rows_polls:
  "polls s \<le> polls (snd (scrape_rows E cfg d fn lcb cc sec rows results s))"
proof (induction rows arbitrary: results s)
  case Nil
  show ?case by simp
next
  case (Cons cells rows)
  obtain x s1 where r: "scrape_row E cfg d fn lcb cc sec cells results s = (x, s1)"
    by (cases "scrape_row E cfg d fn lcb cc sec cells results s")
  have m: "polls s \<le> polls s1"
    using scrape_row_polls [of s E cfg d fn lcb cc sec cells results] r by simp
  show ?case
  proof (cases x)
    case (Inl e)
    with r m show ?thesis by simp
  next
    case (Inr ex)
    show ?thesis
    proof (cases ex)
      case (Returned r')
      with Inr r m show ?thesis by simp
    next
      case (Completed r')
      with Inr r order_trans [OF m Cons.IH] show ?thesis by simp
    qed
  qed
qed

lemma scrape_rows_not_returned:
  "fst (scrape_rows (E\<lparr>cancel_at := None\<rparr>) cfg d fn lcb cc sec rows results s) \<noteq> Inr (Returned r)"
proof (induction rows arbitrary: results s)
  case Nil
  show ?case by simp
next
  case (Cons cells rows)
  obtain x s1 where
    r: "scrape_row (E\<lparr>cancel_at := None\<rparr>) cfg d fn lcb cc sec cells results s = (x, s1)"
    by (cases "scrape_row (E\<lparr>cancel_at := None\<rparr>) cfg d fn lcb cc sec cells results s")
  have n: "x \<noteq> Inr (Returned q)" for q
    using scrape_row_not_returned [of E cfg d fn lcb cc sec cells results s q] r by simp
  show ?case
  proof (cases x)
    case (Inl e)
    with r show ?thesis by simp
  next
    case (Inr ex)
    show ?thesis
    proof (cases ex)
      case (Returned r')
      with Inr n show ?thesis by simp
    next
      case (Completed r')
      with Inr r Cons.IH show ?thesis by simp
    qed
  qed
qed

lemma scrape_rows_same:
  assumes "polls (snd (scrape_rows (E\<lparr>cancel_at := None\<rparr>) cfg d fn lcb cc sec rows results s)) \<le> c"
  shows "scrape_rows (E\<lparr>cancel_at := Some c\<rparr>) cfg d fn lcb cc sec rows results s =
         scrape_rows (E\<lparr>cancel_at := None\<rparr>) cfg d fn lcb cc sec rows results s"
  using assms
proof (induction rows arbitrary: results s)
  case Nil
  show ?case by simp
next
  case (Cons cells rows)
  obtain x s1 where
    r: "scrape_row (E\<lparr>cancel_at := None\<rparr>) cfg d fn lcb cc sec cells results s = (x, s1)"
    by (cases "scrape_row (E\<lparr>cancel_at := None\<rparr>) cfg d fn lcb cc sec cells results s")
  have "polls s1 \<le> polls (snd (scrape_rows (E\<lparr>cancel_at := None\<rparr>) cfg d fn lcb cc sec
                                  (cells # rows) results s))"
    using r scrape_rows_polls [of s1 "E\<lparr>cancel_at := None\<rparr>" cfg d fn lcb cc sec rows]
    by (auto split: sum.splits loop_exit.splits)
  with Cons.prems have le: "polls s1 \<le> c" by simp
  have same: "scrape_row (E\<lparr>cancel_at := Some c\<rparr>) cfg d fn lcb cc sec cells results s = (x, s1)"
    using scrape_row_same [of E cfg d fn lcb cc sec cells results s c] r le by simp
  show ?case
  proof (cases x)
    case (Inl e)
    with r same show ?thesis by simp
  next
    case (Inr ex)
    show ?thesis
    proof (cases ex)
      case (Returned r')
      with Inr r same show ?thesis by simp
    next
      case (Completed r')
      with Inr r Cons.prems have "polls (snd (scrape_rows (E\<lparr>cancel_at := None\<rparr>) cfg d fn lcb cc
                                               sec rows r' s1)) \<le> c"
        by simp
      from Cons.IH [OF this] Inr Completed r same show ?thesis by simp
    qed
  qed
qed

lemma scrape_rows_fst:
  "fst (scrape_rows (E\<lparr>cancel_at := None\<rparr>) cfg d fn lcb cc sec rows results s) =
   fst (scrape_rows (E\<lparr>cancel_at := None\<rparr>) cfg d fn lcb cc sec rows results s')"
proof (induction rows arbitrary: results s s')
  case Nil
  show ?case by simp
next
  case (Cons cells rows)
  obtain x s1 where
    r: "scrape_row (E\<lparr>cancel_at := None\<rparr>) cfg d fn lcb cc sec cells results s = (x, s1)"
    by (cases "scrape_row (E\<lparr>cancel_at := None\<rparr>) cfg d fn lcb cc sec cells results s")
  obtain x' s1' where
    r': "scrape_row (E\<lparr>cancel_at := None\<rparr>) cfg d fn lcb cc sec cells results s' = (x', s1')"
    by (cases "scrape_row (E\<lparr>cancel_at := None\<rparr>) cfg d fn lcb cc sec cells results s'")
  have "x' = x"
    using scrape_row_fst [of E cfg d fn lcb cc sec cells results s s'] r r' by simp
  with r r' Cons.IH show ?case
    by (auto split: sum.splits loop_exit.splits)
qed

lemma scrape_rows_dates:
  assumes "fst (scrape_rows E cfg d fn lcb cc sec rows results s) = Inr x"
  shows "\<forall>r \<in> set (exit_results x). r \<in> set results \<or> l_date r = d"
  using assms
proof (induction rows arbitrary: results s)
  case Nil
  then show ?case by auto
next
  case (Cons cells rows)
  obtain y s1 where r: "scrape_row E cfg d fn lcb cc sec cells results s = (y, s1)"
    by (cases "scrape_row E cfg d fn lcb cc sec cells results s")
  show ?case
  proof (cases y)
    case (Inl e)
    with r Cons.prems show ?thesis by simp
  next
    case (Inr ex)
    have one: "\<forall>r \<in> set (exit_results ex). r \<in> set results \<or> l_date r = d"
      using scrape_row_dates [of E cfg d fn lcb cc sec cells results s ex] r Inr by simp
    show ?thesis
    proof (cases ex)
      case (Returned r')
      with Inr r Cons.prems one show ?thesis by auto
    next
      case (Completed r')
      with Inr r Cons.prems have "fst (scrape_rows E cfg d fn lcb cc sec rows r' s1) = Inr x"
        by simp
      from Cons.IH [OF this] one Completed show ?thesis by auto
    qed
  qed
qed

lemma scrape_tables_polls:
  "polls s \<le> polls (snd (scrape_tables E cfg d fn lcb cc cur tables results s))"
proof (induction tables arbitrary: cur results s)
  case Nil
  show ?case by simp
next
  case (Cons table tables)
  obtain before rows where t: "table = (before, rows)" by (cases table)
  show ?case
  proof (cases "update_section cur before")
    case None
    with t Cons.IH show ?thesis by simp
  next
    case (Some sec)
    obtain x s1 where r: "scrape_rows E cfg d fn lcb cc sec rows results s = (x, s1)"
      by (cases "scrape_rows E cfg d fn lcb cc sec rows results s")
    have m: "polls s \<le> polls s1"
      using scrape_rows_polls [of s E cfg d fn lcb cc sec rows results] r by simp
    show ?thesis
      using t Some r m order_trans [OF m Cons.IH]
      by (auto split: sum.splits loop_exit.splits)
  qed
qed

lemma scrape_tables_same:
  assumes "polls (snd (scrape_tables (E\<lparr>cancel_at := None\<rparr>) cfg d fn lcb cc cur tables results s)) \<le> c"
  shows "scrape_tables (E\<lparr>cancel_at := Some c\<rparr>) cfg d fn lcb cc cur tables results s =
         scrape_tables (E\<lparr>cancel_at := None\<rparr>) cfg d fn lcb cc cur tables results s"
  using assms
proof (induction tables arbitrary: cur results s)
  case Nil
  show ?case by simp
next
  case (Cons table tables)
  obtain before rows where t: "table = (before, rows)" by (cases table)
  show ?case
  proof (cases "update_section cur before")
    case None
    with t Cons.prems Cons.IH show ?thesis by simp
  next
    case (Some sec)
    obtain x s1 where
      r: "scrape_rows (E\<lparr>cancel_at := None\<rparr>) cfg d fn lcb cc sec rows results s = (x, s1)"
      by (cases "scrape_rows (E\<lparr>cancel_at := None\<rparr>) cfg d fn lcb cc sec rows results s")
    have "polls s1 \<le> polls (snd (scrape_tables (E\<lparr>cancel_at := None\<rparr>) cfg d fn lcb cc cur
                                    (table # tables) results s))"
      using t Some r
        scrape_tables_polls [of s1 "E\<lparr>cancel_at := None\<rparr>" cfg d fn lcb cc "Some sec" tables]
      by (auto split: sum.splits loop_exit.splits)
    with Cons.prems have le: "polls s1 \<le> c" by simp
    have same: "scrape_rows (E\<lparr>cancel_at := Some c\<rparr>) cfg d fn lcb cc sec rows results s = (x, s1)"
      using scrape_rows_same [of E cfg d fn lcb cc sec rows results s c] r le by simp
    show ?thesis
    proof (cases x)
      case (Inl e)
      with t Some r same show ?thesis by simp
    next
      case (Inr ex)
      show ?thesis
      proof (cases ex)
        case (Returned r')
        with Inr t Some r same show ?thesis by simp
      next
        case (Completed r')
        with Inr t Some r Cons.prems
        have "polls (snd (scrape_tables (E\<lparr>cancel_at := None\<rparr>) cfg d fn lcb cc (Some sec)
                            tables r' s1)) \<le> c"
          by simp
        from Cons.IH [OF this] Inr Completed t Some r same show ?thesis by simp
      qed
    qed
  qed
qed

lemma scrape_tables_fst:
  "fst (scrape_tables (E\<lparr>cancel_at := None\<rparr>) cfg d fn lcb cc cur tables results s) =
   fst (scrape_tables (E\<lparr>cancel_at := None\<rparr>) cfg d fn lcb cc cur tables results s')"
proof (induction tables arbitrary: cur results s s')
  case Nil
  show ?case by simp
next
  case (Cons table tables)
  obtain before rows where t: "table = (before, rows)" by (cases table)
  show ?case
  proof (cases "update_section cur before")
    case None
    with t Cons.IH show ?thesis by simp
  next
    case (Some sec)
    obtain x s1 where
      r: "scrape_rows (E\<lparr>cancel_at := None\<rparr>) cfg d fn lcb cc sec rows results s = (x, s1)"
      by (cases "scrape_rows (E\<lparr>cancel_at := None\<rparr>) cfg d fn lcb cc sec rows results s")
    obtain x' s1' where
      r': "scrape_rows (E\<lparr>cancel_at := None\<rparr>) cfg d fn lcb cc sec rows results s' = (x', s1')"
      by (cases "scrape_rows (E\<lparr>cancel_at := None\<rparr>) cfg d fn lcb cc sec rows results s'")
    have "x' = x"
      using scrape_rows_fst [of E cfg d fn lcb cc sec rows results s s'] r r' by simp
    with t Some r r' Cons.IH show ?thesis
      by (auto split: sum.splits loop_exit.splits)
  qed
qed

lemma scrape_tables_dates:
  assumes "fst (scrape_tables E cfg d fn lcb cc cur tables results s) = Inr x"
  shows "\<forall>r \<in> set x. r \<in> set results \<or> l_date r = d"
  using assms
proof (induction tables arbitrary: cur results s)
  case Nil
  then show ?case by auto
next
  case (Cons table tables)
  obtain before rows where t: "table = (before, rows)" by (cases table)
  show ?case
  proof (cases "update_section cur before")
    case None
    with t Cons.prems Cons.IH show ?thesis by simp
  next
    case (Some sec)
    obtain y s1 where r: "scrape_rows E cfg d fn lcb cc sec rows results s = (y, s1)"
      by (cases "scrape_rows E cfg d fn lcb cc sec rows results s")
    show ?thesis
    proof (cases y)
      case (Inl e)
      with t Some r Cons.prems show ?thesis by simp
    next
      case (Inr ex)
      have one: "\<forall>r \<in> set (exit_results ex). r \<in> set results \<or> l_date r = d"
        using scrape_rows_dates [of E cfg d fn lcb cc sec rows results s ex] r Inr by simp
      show ?thesis
      proof (cases ex)
        case (Returned r')
        with Inr t Some r Cons.prems one show ?thesis by auto
      next
        case (Completed r')
        with Inr t Some r Cons.prems
        have "fst (scrape_tables E cfg d fn lcb cc (Some sec) tables r' s1) = Inr x"
          by simp
        from Cons.IH [OF this] one Completed show ?thesis by auto
      qed
    qed
  qed
qed

lemma polls_add_log: "polls (add_log ev s) = polls s"
  by (simp add: add_log_def)

lemma polls_add_request: "polls (add_request url s) = polls s"
  by (simp add: add_request_def)

lemma scrape_date_try_polls:
  "polls s \<le> polls (snd (scrape_date_try E cfg d fn lcb cc s))"
proof (cases "listing_page E (base_url cfg @ py_replace d (ascii ''-'') [])")
  case (Inl e)
  then show ?thesis
    by (simp add: scrape_date_try_def Let_def polls_add_request)
next
  case (Inr nodes)
  with scrape_tables_polls [of "add_request (base_url cfg @ py_replace d (ascii ''-'') []) s"
      E cfg d fn lcb cc None "find_all_table [] nodes" "[]"]
  show ?thesis
    by (simp add: scrape_date_try_def Let_def polls_add_request)
qed

lemma scrape_date_polls:
  "polls s \<le> polls (snd (scrape_date E cfg d fn lcb cc s))"
  using scrape_date_try_polls [of s E cfg d fn lcb cc]
  by (auto simp add: scrape_date_def polls_add_log split: prod.splits sum.splits)

lemma scrape_date_try_same:
  assumes "polls (snd (scrape_date_try (E\<lparr>cancel_at := None\<rparr>) cfg d fn lcb cc s)) \<le> c"
  shows "scrape_date_try (E\<lparr>cancel_at := Some c\<rparr>) cfg d fn lcb cc s =
         scrape_date_try (E\<lparr>cancel_at := None\<rparr>) cfg d fn lcb cc s"
proof (cases "listing_page E (base_url cfg @ py_replace d (ascii ''-'') [])")
  case (Inl e)
  then show ?thesis
    by (simp add: scrape_date_try_def Let_def)
next
  case (Inr nodes)
  with assms have "polls (snd (scrape_tables (E\<lparr>cancel_at := None\<rparr>) cfg d fn lcb cc None
      (find_all_table [] nodes) []
      (add_request (base_url cfg @ py_replace d (ascii ''-'') []) s))) \<le> c"
    by (simp add: scrape_date_try_def Let_def)
  from scrape_tables_same [OF this] Inr show ?thesis
    by (simp add: scrape_date_try_def Let_def)
qed

lemma scrape_date_same:
  assumes "polls (snd (scrape_date (E\<lparr>cancel_at := None\<rparr>) cfg d fn lcb cc s)) \<le> c"
  shows "scrape_date (E\<lparr>cancel_at := Some c\<rparr>) cfg d fn lcb cc s =
         scrape_date (E\<lparr>cancel_at := None\<rparr>) cfg d fn lcb cc s"
proof -
  from assms have "polls (snd (scrape_date_try (E\<lparr>cancel_at := None\<rparr>) cfg d fn lcb cc s)) \<le> c"
    by (auto simp add: scrape_date_def polls_add_log split: prod.splits sum.splits if_splits)
  from scrape_date_try_same [OF this] show ?thesis
    by (simp add: scrape_date_def)
qed

lemma scrape_date_try_fst:
  "fst (scrape_date_try (E\<lparr>cancel_at := None\<rparr>) cfg d fn lcb cc s) =
   fst (scrape_date_try (E\<lparr>cancel_at := None\<rparr>) cfg d fn lcb cc s')"
proof (cases "listing_page E (base_url cfg @ py_replace d (ascii ''-'') [])")
  case (Inl e)
  then show ?thesis
    by (simp add: scrape_date_try_def Let_def)
next
  case (Inr nodes)
  with scrape_tables_fst [of E cfg d fn lcb cc None "find_all_table [] nodes" "[]"
      "add_request (base_url cfg @ py_replace d (ascii ''-'') []) s"
      "add_request (base_url cfg @ py_replace d (ascii ''-'') []) s'"]
  show ?thesis
    by (simp add: scrape_date_try_def Let_def)
qed

lemma scrape_date_fst:
  "fst (scrape_date (E\<lparr>cancel_at := None\<rparr>) cfg d fn lcb cc s) =
   fst (scrape_date (E\<lparr>cancel_at := None\<rparr>) cfg d fn lcb cc s')"
  using scrape_date_try_fst [of E cfg d fn lcb cc s s']
  by (auto simp add: scrape_date_def split: prod.splits sum.splits)

lemma scrape_date_returns:
  "\<exists>results. fst (scrape_date E cfg d fn lcb cc s) = Inr results"
  by (simp add: scrape_date_def split: prod.splits sum.splits)

lemma scrape_date_try_dates:
  assumes "fst (scrape_date_try E cfg d fn lcb cc s) = Inr x"
  shows "\<forall>r \<in> set x. l_date r = d"
proof (cases "listing_page E (base_url cfg @ py_replace d (ascii ''-'') [])")
  case (Inl e)
  with assms show ?thesis
    by (simp add: scrape_date_try_def Let_def)
next
  case (Inr nodes)
  with assms have "fst (scrape_tables E cfg d fn lcb cc None (find_all_table [] nodes) []
      (add_request (base_url cfg @ py_replace d (ascii ''-'') []) s)) = Inr x"
    by (simp add: scrape_date_try_def Let_def)
  from scrape_tables_dates [OF this] show ?thesis
    by simp
qed

lemma scrape_date_dates:
  assumes "fst (scrape_date E cfg d fn lcb cc s) = Inr x"
  shows "\<forall>r \<in> set x. l_date r = d"
  using assms scrape_date_try_dates [of E cfg d fn lcb cc s]
  by (auto simp add: scrape_date_def split: prod.splits sum.splits)
subsection \<open>The loop over the dates\<close>

lemma collect_loop_polls:
  "polls s \<le> polls (snd (collect_loop E cfg fn n i dates acc s))"
proof (induction dates arbitrary: i acc s)
  case Nil
  show ?case by simp
next
  case (Cons d dates)
  let ?s1 = "s\<lparr>polls := Suc (polls s)\<rparr>"
  obtain x s2 where
    r: "scrape_date E cfg d fn True True (add_log (LogCollecting i n d) ?s1) = (x, s2)"
    by (cases "scrape_date E cfg d fn True True (add_log (LogCollecting i n d) ?s1)")
  have m: "polls s \<le> polls s2"
    using scrape_date_polls [of "add_log (LogCollecting i n d) ?s1" E cfg d fn True True] r
    by (simp add: polls_add_log)
  have m': "polls s \<le> polls (add_log ev s2)" for ev
    using m by (simp add: polls_add_log)
  show ?case
    using r m order_trans [OF m' Cons.IH]
    by (auto simp add: read_is_running_def split: sum.splits)
qed

lemma collect_loop_gathered:
  "fst (collect_loop (E\<lparr>cancel_at := None\<rparr>) cfg fn n i dates acc s) =
     Inr (acc @ concat (map (gathered E cfg fn) dates))"
proof (induction dates arbitrary: i acc s)
  case Nil
  show ?case by simp
next
  case (Cons d dates)
  let ?sl = "add_log (LogCollecting i n d) (s\<lparr>polls := Suc (polls s)\<rparr>)"
  obtain x s2 where
    r: "scrape_date (E\<lparr>cancel_at := None\<rparr>) cfg d fn True True ?sl = (x, s2)"
    by (cases "scrape_date (E\<lparr>cancel_at := None\<rparr>) cfg d fn True True ?sl")
  obtain results where x: "x = Inr results"
    using scrape_date_returns [of "E\<lparr>cancel_at := None\<rparr>" cfg d fn True True ?sl] r by auto
  have "fst (scrape_date (E\<lparr>cancel_at := None\<rparr>) cfg d fn True True empty_state) = Inr results"
    using scrape_date_fst [of E cfg d fn True True ?sl empty_state] r x by simp
  then have g: "gathered E cfg fn d = results"
    by (simp add: gathered_def)
  show ?case
    using r x g Cons.IH by (simp add: read_is_running_def)
qed

lemma collect_loop_cancelled:
  assumes "k \<le> length dates"
    and "c = polls (snd (collect_loop (E\<lparr>cancel_at := None\<rparr>) cfg fn n i (take k dates) acc s))"
  shows "fst (collect_loop (E\<lparr>cancel_at := Some c\<rparr>) cfg fn n i dates acc s) =
         fst (collect_loop (E\<lparr>cancel_at := None\<rparr>) cfg fn n i (take k dates) acc s)"
  using assms
proof (induction dates arbitrary: k i acc s)
  case Nil
  then show ?case by simp
next
  case (Cons d dates)
  show ?case
  proof (cases k)
    case 0
    with Cons.prems show ?thesis
      by (simp add: read_is_running_def)
  next
    case (Suc k')
    let ?sl = "add_log (LogCollecting i n d) (s\<lparr>polls := Suc (polls s)\<rparr>)"
    obtain x s2 where
      r: "scrape_date (E\<lparr>cancel_at := None\<rparr>) cfg d fn True True ?sl = (x, s2)"
      by (cases "scrape_date (E\<lparr>cancel_at := None\<rparr>) cfg d fn True True ?sl")
    obtain results where x: "x = Inr results"
      using scrape_date_returns [of "E\<lparr>cancel_at := None\<rparr>" cfg d fn True True ?sl] r by auto
    let ?s3 = "add_log (LogCollected (length results)) s2"
    have run: "collect_loop (E\<lparr>cancel_at := None\<rparr>) cfg fn n i (take k (d # dates)) acc s =
        collect_loop (E\<lparr>cancel_at := None\<rparr>) cfg fn n (Suc i) (take k' dates) (acc @ results) ?s3"
      using Suc r x by (simp add: read_is_running_def)
    with Cons.prems(2) have c: "c = polls (snd (collect_loop (E\<lparr>cancel_at := None\<rparr>) cfg fn n (Suc i)
        (take k' dates) (acc @ results) ?s3))"
      by simp
    have "polls ?s3 \<le> c"
      unfolding c by (rule collect_loop_polls)
    then have le2: "polls s2 \<le> c"
      by (simp add: polls_add_log)
    have "polls ?sl \<le> polls s2"
      using scrape_date_polls [of ?sl "E\<lparr>cancel_at := None\<rparr>" cfg d fn True True] r by simp
    with le2 have lt: "polls s < c"
      by (simp add: polls_add_log)
    have same: "scrape_date (E\<lparr>cancel_at := Some c\<rparr>) cfg d fn True True ?sl = (x, s2)"
      using scrape_date_same [of E cfg d fn True True ?sl c] r le2 by simp
    have k': "k' \<le> length dates"
      using Cons.prems(1) Suc by simp
    have "fst (collect_loop (E\<lparr>cancel_at := Some c\<rparr>) cfg fn n i (d # dates) acc s) =
          fst (collect_loop (E\<lparr>cancel_at := Some c\<rparr>) cfg fn n (Suc i) dates (acc @ results) ?s3)"
      using lt same x by (simp add: read_is_running_def)
    also have "\<dots> = fst (collect_loop (E\<lparr>cancel_at := None\<rparr>) cfg fn n (Suc i) (take k' dates)
                            (acc @ results) ?s3)"
      by (rule Cons.IH [OF k' c])
    finally show ?thesis
      by (simp add: run)
  qed
qed

lemma gathered_dates: "\<forall>r \<in> set (gathered E cfg fn d). l_date r = d"
proof -
  obtain results where
    r: "fst (scrape_date (E\<lparr>cancel_at := None\<rparr>) cfg d fn True True empty_state) = Inr results"
    using scrape_date_returns [of "E\<lparr>cancel_at := None\<rparr>" cfg d fn True True empty_state] by auto
  from scrape_date_dates [OF r] r show ?thesis
    by (simp add: gathered_def)
qed

subsection \<open>C3: cancellation after k dates\<close>

text \<open>
  C3: for every sequence of dates and every \<open>k\<close> up to its length, if the cancel
  request arrives when the loop has processed \<open>k\<close> dates (the flag reads \<open>True\<close> at every
  read made while the first \<open>k\<close> dates are processed, and \<open>False\<close> afterwards), the
  result of \<open>_collect_data\<close> is exactly the concatenation of the records gathered from
  the first \<open>k\<close> dates; each of its records carries one of these dates, and so, the dates
  being distinct, none of the dates after them.
\<close>

theorem collect_data_cancelled_after_k_dates:
  assumes "k \<le> length dates"
    and "cancel_at E = Some (polls_after E cfg fetch_nums dates k s)"
  shows "fst (collect_data E cfg dates fetch_nums s) =
           Inr (concat (map (gathered E cfg fetch_nums) (take k dates))) \<and>
         (\<forall>r \<in> set (concat (map (gathered E cfg fetch_nums) (take k dates))).
            l_date r \<in> set (take k dates)) \<and>
         (distinct dates \<longrightarrow>
            (\<forall>r \<in> set (concat (map (gathered E cfg fetch_nums) (take k dates))).
               l_date r \<notin> set (drop k dates)))"
proof -
  let ?c = "polls_after E cfg fetch_nums dates k s"
  have E: "E = E\<lparr>cancel_at := Some ?c\<rparr>"
    using assms(2) by simp
  have "fst (collect_data (E\<lparr>cancel_at := Some ?c\<rparr>) cfg dates fetch_nums s) =
        fst (collect_loop (E\<lparr>cancel_at := None\<rparr>) cfg fetch_nums (length dates) 1 (take k dates) [] s)"
    unfolding collect_data_def
    by (rule collect_loop_cancelled [OF assms(1)]) (simp add: polls_after_def)
  with E have result: "fst (collect_data E cfg dates fetch_nums s) =
      Inr (concat (map (gathered E cfg fetch_nums) (take k dates)))"
    by (simp add: collect_loop_gathered)
  have own: "\<forall>r \<in> set (concat (map (gathered E cfg fetch_nums) (take k dates))).
      l_date r \<in> set (take k dates)"
    using gathered_dates [of E cfg fetch_nums] by auto
  have "distinct dates \<Longrightarrow> set (take k dates) \<inter> set (drop k dates) = {}"
    using distinct_append [of "take k dates" "drop k dates"] by simp
  with own have later: "distinct dates \<longrightarrow>
      (\<forall>r \<in> set (concat (map (gathered E cfg fetch_nums) (take k dates))).
         l_date r \<notin> set (drop k dates))"
    by blast
  from result own later show ?thesis
    by blast
qed

lemma convert_scenario_url:
  "convert_detail_url_to_pdf DEFAULT_SETTINGS (ascii ''https://www.info.pmda.go.jp/ygo/pack/123/456'')
     = Inr (ascii ''https://www.info.pmda.go.jp/ygo/pdf/123_456/'')"
  by code_simp

lemma company_scenario: "py_replace (MAKER_PREFIX @ ascii ''ACME'') MAKER_PREFIX [] = ascii ''ACME''"
  by (simp add: MAKER_PREFIX_def ascii_def py_replace.simps)

lemma scrape_date_scenario:
  "scrape_date (listing_env\<lparr>cancel_at := None\<rparr>) DEFAULT_SETTINGS d False True True s =
     (Inr [product_record d SECTION_LISTED],
      (add_request (base_url DEFAULT_SETTINGS @ py_replace d (ascii ''-'') []) s)
        \<lparr>polls := Suc (polls s)\<rparr>)"
proof -
  have url: "detail_base_url DEFAULT_SETTINGS @ ascii ''/ygo/pack/123/456''
      = ascii ''https://www.info.pmda.go.jp/ygo/pack/123/456''"
    by (simp add: DEFAULT_SETTINGS_def ascii_def)
  have marker: "py_in LISTED_MARKER LISTED_MARKER"
    by (simp add: LISTED_MARKER_def)
  have name: "ascii ''ProductX'' \<noteq> [] \<and> ascii ''ProductX'' \<noteq> KEY_PRODUCT"
    by (simp add: ascii_def KEY_PRODUCT_def)
  show ?thesis
    by (simp add: scrape_date_def scrape_date_try_def listing_env_def scenario_page_def
        product_row_def update_section_def marker scrape_row_def check_cancel_def
        read_is_running_def url convert_scenario_url company_scenario append_row_def name
        product_record_def add_request_def Let_def)
qed

theorem collect_data_cancelled_after_k_dates_witness:
  "2 \<le> length [ascii ''2024-01-15'', ascii ''2024-01-16'', ascii ''2024-01-17''] \<and>
   cancel_at listing_env =
     Some (polls_after listing_env DEFAULT_SETTINGS False
             [ascii ''2024-01-15'', ascii ''2024-01-16'', ascii ''2024-01-17''] 2 empty_state) \<and>
   fst (collect_data listing_env DEFAULT_SETTINGS
          [ascii ''2024-01-15'', ascii ''2024-01-16'', ascii ''2024-01-17''] False empty_state)
     = Inr [product_record (ascii ''2024-01-15'') SECTION_LISTED,
            product_record (ascii ''2024-01-16'') SECTION_LISTED]"
proof -
  let ?dates = "[ascii ''2024-01-15'', ascii ''2024-01-16'', ascii ''2024-01-17'']"
  have len: "2 \<le> length ?dates"
    by simp
  have after: "polls_after listing_env DEFAULT_SETTINGS False ?dates 2 empty_state = 4"
    by (simp add: polls_after_def read_is_running_def scrape_date_scenario add_log_def
        add_request_def empty_state_def numeral_2_eq_2)
  have cancel: "cancel_at listing_env =
      Some (polls_after listing_env DEFAULT_SETTINGS False ?dates 2 empty_state)"
    unfolding after by (simp add: listing_env_def)
  have g: "gathered listing_env DEFAULT_SETTINGS False d = [product_record d SECTION_LISTED]" for d
    by (simp add: gathered_def scrape_date_scenario)
  from collect_data_cancelled_after_k_dates [OF len cancel] len cancel show ?thesis
    by (simp add: g numeral_2_eq_2)
qed

subsection \<open>C7: a date whose listing page cannot be fetched\<close>

text \<open>
  C7: when fetching or parsing the listing page of a date fails, \<open>scrape_date\<close>, called
  with a log callback, returns the empty list and logs the exception; with or without a
  log callback it returns the empty list and raises nothing.
  In \<open>_collect_data\<close>, if the flag still reads \<open>True\<close> when the date begins, the loop
  goes on with the next date, with the accumulated results unchanged.
\<close>

theorem scrape_date_failure_is_local:
  assumes "listing_page E (base_url cfg @ py_replace date_str (ascii ''-'') []) = Inl e"
    and "fst (read_is_running E s)"
  shows "scrape_date E cfg date_str fetch_numbers True cancel_check s0 =
           (Inr [], add_log (LogScrapeError e)
                      (add_request (base_url cfg @ py_replace date_str (ascii ''-'') []) s0)) \<and>
         fst (scrape_date E cfg date_str fetch_numbers log_callback cancel_check s0) = Inr [] \<and>
         collect_loop E cfg fetch_nums n i (date_str # dates) all_results s =
           collect_loop E cfg fetch_nums n (Suc i) dates all_results
             (add_log (LogCollected 0)
                (add_log (LogScrapeError e)
                   (add_request (base_url cfg @ py_replace date_str (ascii ''-'') [])
                      (add_log (LogCollecting i n date_str) (s\<lparr>polls := Suc (polls s)\<rparr>)))))"
proof -
  have one: "scrape_date E cfg date_str fn True cc t =
      (Inr [], add_log (LogScrapeError e)
                 (add_request (base_url cfg @ py_replace date_str (ascii ''-'') []) t))" for fn cc t
    using assms(1) by (simp add: scrape_date_def scrape_date_try_def Let_def)
  have running: "read_is_running E s = (True, s\<lparr>polls := Suc (polls s)\<rparr>)"
    using assms(2) by (simp add: read_is_running_def)
  have any: "fst (scrape_date E cfg date_str fetch_numbers log_callback cancel_check s0) = Inr []"
    using assms(1) by (simp add: scrape_date_def scrape_date_try_def Let_def)
  show ?thesis
    by (simp add: one running any)
qed

theorem scrape_date_failure_is_local_witness:
  "listing_page serving_env
       (base_url DEFAULT_SETTINGS @ py_replace (ascii ''2024-01-15'') (ascii ''-'') [])
     = Inl (RequestException, ascii ''unreachable'') \<and>
   fst (read_is_running serving_env empty_state) \<and>
   scrape_date serving_env DEFAULT_SETTINGS (ascii ''2024-01-15'') False True True empty_state =
     (Inr [], add_log (LogScrapeError (RequestException, ascii ''unreachable''))
                (add_request (base_url DEFAULT_SETTINGS @ ascii ''20240115'') empty_state)) \<and>
   fst (collect_data serving_env DEFAULT_SETTINGS [ascii ''2024-01-15'', ascii ''2024-01-16''] False
          empty_state) = Inr [] \<and>
   requests (snd (collect_data serving_env DEFAULT_SETTINGS
                    [ascii ''2024-01-15'', ascii ''2024-01-16''] False empty_state))
     = [base_url DEFAULT_SETTINGS @ ascii ''20240115'', base_url DEFAULT_SETTINGS @ ascii ''20240116'']"
proof -
  have failing: "listing_page serving_env
      (base_url DEFAULT_SETTINGS @ py_replace (ascii ''2024-01-15'') (ascii ''-'') [])
        = Inl (RequestException, ascii ''unreachable'')"
    by (simp add: serving_env_def)
  have running: "fst (read_is_running serving_env empty_state)"
    by (simp add: read_is_running_def serving_env_def)
  have d1: "py_replace (ascii ''2024-01-15'') (ascii ''-'') [] = ascii ''20240115''"
    by (simp add: ascii_def py_replace.simps)
  have d2: "py_replace (ascii ''2024-01-16'') (ascii ''-'') [] = ascii ''20240116''"
    by (simp add: ascii_def py_replace.simps)
  let ?s1 = "add_log (LogCollected 0)
      (add_log (LogScrapeError (RequestException, ascii ''unreachable''))
         (add_request (base_url DEFAULT_SETTINGS @ py_replace (ascii ''2024-01-15'') (ascii ''-'') [])
            (add_log (LogCollecting 1 2 (ascii ''2024-01-15''))
               (empty_state\<lparr>polls := Suc (polls empty_state)\<rparr>))))"
  have second: "collect_loop serving_env DEFAULT_SETTINGS False 2 (Suc 1) [ascii ''2024-01-16''] [] t =
      (Inr [], add_log (LogCollected 0)
                 (add_log (LogScrapeError (RequestException, ascii ''unreachable''))
                    (add_request (base_url DEFAULT_SETTINGS @ ascii ''20240116'')
                       (add_log (LogCollecting (Suc 1) 2 (ascii ''2024-01-16''))
                          (t\<lparr>polls := Suc (polls t)\<rparr>)))))" for t
    by (simp add: read_is_running_def serving_env_def scrape_date_def scrape_date_try_def d2)
  note local = scrape_date_failure_is_local [OF failing running,
      of False True empty_state True False 2 1 "[ascii ''2024-01-16'']" "[]"]
  have first: "scrape_date serving_env DEFAULT_SETTINGS (ascii ''2024-01-15'') False True True
      empty_state =
     (Inr [], add_log (LogScrapeError (RequestException, ascii ''unreachable''))
                (add_request (base_url DEFAULT_SETTINGS @ ascii ''20240115'') empty_state))"
    using local [THEN conjunct1] by (simp only: d1)
  have "collect_data serving_env DEFAULT_SETTINGS [ascii ''2024-01-15'', ascii ''2024-01-16''] False
      empty_state =
      collect_loop serving_env DEFAULT_SETTINGS False 2 1
        [ascii ''2024-01-15'', ascii ''2024-01-16''] [] empty_state"
    by (simp add: collect_data_def numeral_2_eq_2 del: collect_loop.simps)
  also have "\<dots> = collect_loop serving_env DEFAULT_SETTINGS False 2 (Suc 1) [ascii ''2024-01-16''] [] ?s1"
    by (rule local [THEN conjunct2, THEN conjunct2])
  finally have whole: "collect_data serving_env DEFAULT_SETTINGS
      [ascii ''2024-01-15'', ascii ''2024-01-16''] False empty_state =
      (Inr [], add_log (LogCollected 0)
                 (add_log (LogScrapeError (RequestException, ascii ''unreachable''))
                    (add_request (base_url DEFAULT_SETTINGS @ ascii ''20240116'')
                       (add_log (LogCollecting (Suc 1) 2 (ascii ''2024-01-16''))
                          (?s1\<lparr>polls := Suc (polls ?s1)\<rparr>)))))"
    by (simp only: second)
  have reqs: "requests (snd (collect_data serving_env DEFAULT_SETTINGS
      [ascii ''2024-01-15'', ascii ''2024-01-16''] False empty_state))
     = [base_url DEFAULT_SETTINGS @ ascii ''20240115'', base_url DEFAULT_SETTINGS @ ascii ''20240116'']"
    unfolding whole d1 by (simp add: add_log_def add_request_def empty_state_def)
  have res: "fst (collect_data serving_env DEFAULT_SETTINGS
      [ascii ''2024-01-15'', ascii ''2024-01-16''] False empty_state) = Inr []"
    unfolding whole by simp
  from failing running first res reqs show ?thesis
    by blast
qed

subsection \<open>C1: the section of a table\<close>

lemma update_section_current:
  "update_section cur before =
     (case classify_heading_spec (find_previous_h2 before) of
        None \<Rightarrow> cur
      | Some sec \<Rightarrow> Some sec)"
  by (simp add: update_section_def classify_heading_spec_def split: option.splits)

lemma latest_classified_Nil: "latest_classified [] = None"
  by (simp add: latest_classified_def)

lemma latest_classified_Cons:
  "latest_classified (b # bs) =
     (case latest_classified bs of
        None \<Rightarrow> classify_heading_spec (find_previous_h2 b)
      | Some sec \<Rightarrow> Some sec)"
proof (cases "filter (\<lambda>sec. sec \<noteq> None)
                (map (\<lambda>before. classify_heading_spec (find_previous_h2 before)) (rev bs))")
  case Nil
  then show ?thesis
    by (simp add: latest_classified_def split: option.splits)
next
  case (Cons x xs)
  then have "x \<in> set (filter (\<lambda>sec. sec \<noteq> None)
                 (map (\<lambda>before. classify_heading_spec (find_previous_h2 before)) (rev bs)))"
    by simp
  then have "x \<noteq> None" by simp
  with Cons show ?thesis
    by (auto simp add: latest_classified_def)
qed

lemma latest_classified_snoc:
  "latest_classified (bs @ [b]) =
     (case classify_heading_spec (find_previous_h2 b) of
        None \<Rightarrow> latest_classified bs
      | Some sec \<Rightarrow> Some sec)"
  by (simp add: latest_classified_def split: option.splits)

lemma latest_classified_None:
  "latest_classified bs = None \<longleftrightarrow>
     (\<forall>b \<in> set bs. classify_heading_spec (find_previous_h2 b) = None)"
proof (induction bs)
  case Nil
  show ?case by (simp add: latest_classified_Nil)
next
  case (Cons b bs)
  then show ?case
    by (auto simp add: latest_classified_Cons split: option.splits)
qed

lemma effective_section_0:
  "effective_section (t # ts) 0 = classify_heading_spec (find_previous_h2 (fst t))"
  by (simp add: effective_section_def latest_classified_Cons latest_classified_Nil)

lemma effective_section_Suc:
  "effective_section (t # ts) (Suc j) =
     (case effective_section ts j of
        None \<Rightarrow> classify_heading_spec (find_previous_h2 (fst t))
      | Some sec \<Rightarrow> Some sec)"
  by (simp add: effective_section_def latest_classified_Cons)

lemma scrape_tables_labelled:
  "scrape_tables E cfg d fn lcb cc cur tables results s =
     scrape_labelled E cfg d fn lcb cc
       (map (\<lambda>j. (case effective_section tables j of None \<Rightarrow> cur | Some sec \<Rightarrow> Some sec,
                   snd (tables ! j))) [0..<length tables])
       results s"
proof (induction tables arbitrary: cur results s)
  case Nil
  show ?case by simp
next
  case (Cons t ts)
  obtain before rows where t: "t = (before, rows)" by (cases t)
  let ?cur' = "update_section cur before"
  have labels: "map (\<lambda>j. (case effective_section (t # ts) j of None \<Rightarrow> cur | Some sec \<Rightarrow> Some sec,
                           snd ((t # ts) ! j))) [0..<length (t # ts)] =
      (?cur', rows) #
      map (\<lambda>j. (case effective_section ts j of None \<Rightarrow> ?cur' | Some sec \<Rightarrow> Some sec,
                 snd (ts ! j))) [0..<length ts]"
  proof -
    have "[0..<length (t # ts)] = 0 # map Suc [0..<length ts]"
      by (simp only: length_Cons upt_conv_Cons [of 0] map_Suc_upt)
    then show ?thesis
      using update_section_current [of cur before]
      by (simp add: t effective_section_0 effective_section_Suc o_def del: upt_Suc
          split: option.splits)
  qed
  show ?case
  proof (cases ?cur')
    case None
    then show ?thesis
      unfolding labels using Cons.IH [of None] by (simp add: t cong: option.case_cong)
  next
    case (Some sec)
    then show ?thesis
      unfolding labels using Cons.IH [of "Some sec"]
      by (simp add: t cong: option.case_cong split: prod.splits sum.splits loop_exit.splits)
  qed
qed

lemma effective_section_step:
  assumes "j < length tables"
  shows "effective_section tables j =
           (case classify_heading_spec (find_previous_h2 (fst (tables ! j))) of
              Some sec \<Rightarrow> Some sec
            | None \<Rightarrow> if j = 0 then None else effective_section tables (j - 1))"
proof -
  have "take (Suc j) tables = take j tables @ [tables ! j]"
    using assms by (rule take_Suc_conv_app_nth)
  then have "effective_section tables j =
      (case classify_heading_spec (find_previous_h2 (fst (tables ! j))) of
         None \<Rightarrow> latest_classified (map fst (take j tables)) | Some sec \<Rightarrow> Some sec)"
    by (simp add: effective_section_def latest_classified_snoc)
  moreover have "latest_classified (map fst (take j tables)) =
      (if j = 0 then None else effective_section tables (j - 1))"
    by (cases j) (simp_all add: effective_section_def latest_classified_Nil)
  ultimately show ?thesis
    by (cases "classify_heading_spec (find_previous_h2 (fst (tables ! j)))") simp_all
qed

lemma find_previous_h2_append:
  "find_previous_h2 (pre @ before) = None \<Longrightarrow> find_previous_h2 before = None"
proof (induction pre)
  case Nil
  then show ?case by simp
next
  case (Cons x pre)
  then show ?case by (cases x) simp_all
qed

lemma find_all_table_suffix:
  "(b, rows) \<in> set (find_all_table before nodes) \<Longrightarrow> \<exists>pre. b = pre @ before"
proof (induction nodes arbitrary: before)
  case Nil
  then show ?case by simp
next
  case (Cons x nodes)
  show ?case
  proof (cases x)
    case (H2 t)
    with Cons.prems Cons.IH [of "H2 t # before"] show ?thesis by auto
  next
    case (Table r)
    with Cons.prems Cons.IH [of "Table r # before"] show ?thesis by auto
  qed
qed

lemma find_all_table_chain:
  assumes "j < length (find_all_table before nodes)"
    and "b \<in> set (map fst (take (Suc j) (find_all_table before nodes)))"
  shows "\<exists>pre. fst (find_all_table before nodes ! j) = pre @ b"
  using assms
proof (induction nodes arbitrary: before j)
  case Nil
  then show ?case by simp
next
  case (Cons x nodes)
  show ?case
  proof (cases x)
    case (H2 t)
    with Cons.prems Cons.IH [of j "H2 t # before"] show ?thesis by simp
  next
    case (Table r)
    let ?ts = "find_all_table (Table r # before) nodes"
    show ?thesis
    proof (cases j)
      case 0
      with Table Cons.prems show ?thesis by simp
    next
      case (Suc j')
      with Table Cons.prems have j': "j' < length ?ts" by simp
      from Suc Table Cons.prems have "b = before \<or> b \<in> set (map fst (take (Suc j') ?ts))"
        by auto
      then show ?thesis
      proof
        assume b: "b = before"
        have "(fst (?ts ! j'), snd (?ts ! j')) \<in> set ?ts"
          using j' by simp
        from find_all_table_suffix [OF this] obtain pre where
          "fst (?ts ! j') = pre @ Table r # before" by blast
        then have "fst (?ts ! j') = (pre @ [Table r]) @ before" by simp
        with b Suc Table show ?thesis by auto
      next
        assume "b \<in> set (map fst (take (Suc j') ?ts))"
        from Cons.IH [OF j' this] Suc Table show ?thesis by simp
      qed
    qed
  qed
qed

lemma no_heading_no_section:
  assumes "j < length (find_all_table [] nodes)"
    and "find_previous_h2 (fst (find_all_table [] nodes ! j)) = None"
  shows "effective_section (find_all_table [] nodes) j = None"
proof -
  have "classify_heading_spec (find_previous_h2 b) = None"
    if "b \<in> set (map fst (take (Suc j) (find_all_table [] nodes)))" for b
  proof -
    from find_all_table_chain [OF assms(1) that] obtain pre where
      "fst (find_all_table [] nodes ! j) = pre @ b" by blast
    with assms(2) have "find_previous_h2 b = None"
      by (simp add: find_previous_h2_append)
    then show ?thesis
      by (simp add: classify_heading_spec_def)
  qed
  then show ?thesis
    by (simp add: effective_section_def latest_classified_None)
qed

lemma scrape_row_sections:
  assumes "fst (scrape_row E cfg d fn lcb cc sec cells results s) = Inr x"
  shows "\<exists>new. exit_results x = results @ new \<and>
           (\<forall>r \<in> set new. l_section r = sec \<and> 3 \<le> length cells \<and>
                           l_reason r = cell_text (cells ! 2))"
proof -
  have "exit_results x = results \<or>
        (\<exists>row. exit_results x = results @ [row] \<and> l_section row = sec \<and> 3 \<le> length cells \<and>
               l_reason row = cell_text (cells ! 2))"
    using assms
    unfolding scrape_row_def Let_def append_row_def
    by (auto split: prod.splits sum.splits if_splits)
  then show ?thesis
  proof
    assume "exit_results x = results"
    then have "exit_results x = results @ [] \<and>
        (\<forall>r \<in> set []. l_section r = sec \<and> 3 \<le> length cells \<and> l_reason r = cell_text (cells ! 2))"
      by simp
    then show ?thesis by blast
  next
    assume "\<exists>row. exit_results x = results @ [row] \<and> l_section row = sec \<and> 3 \<le> length cells \<and>
               l_reason row = cell_text (cells ! 2)"
    then obtain row where "exit_results x = results @ [row] \<and>
        (\<forall>r \<in> set [row]. l_section r = sec \<and> 3 \<le> length cells \<and> l_reason r = cell_text (cells ! 2))"
      by auto
    then show ?thesis by blast
  qed
qed

lemma scrape_rows_sections:
  assumes "fst (scrape_rows E cfg d fn lcb cc sec rows results s) = Inr x"
  shows "\<exists>new. exit_results x = results @ new \<and> emitted_under (Some sec) rows new"
  using assms
proof (induction rows arbitrary: results s)
  case Nil
  then have "exit_results x = results @ [] \<and> emitted_under (Some sec) [] []"
    by (auto simp add: emitted_under_def)
  then show ?case by blast
next
  case (Cons cells rows)
  obtain y s1 where r: "scrape_row E cfg d fn lcb cc sec cells results s = (y, s1)"
    by (cases "scrape_row E cfg d fn lcb cc sec cells results s")
  show ?case
  proof (cases y)
    case (Inl e)
    with r Cons.prems show ?thesis by simp
  next
    case (Inr ex)
    from scrape_row_sections [of E cfg d fn lcb cc sec cells results s ex] r Inr
    obtain new1 where
      n1: "exit_results ex = results @ new1" and
      s1: "\<forall>r \<in> set new1. l_section r = sec \<and> 3 \<le> length cells \<and>
                            l_reason r = cell_text (cells ! 2)"
      by auto
    have e1: "emitted_under (Some sec) (cells # rows) new1"
      using s1 by (auto simp add: emitted_under_def)
    show ?thesis
    proof (cases ex)
      case (Returned r')
      with Inr r Cons.prems have "x = Returned r'" by simp
      with Returned n1 e1 show ?thesis by auto
    next
      case (Completed r')
      with Inr r Cons.prems have "fst (scrape_rows E cfg d fn lcb cc sec rows r' s1) = Inr x"
        by simp
      from Cons.IH [OF this] obtain new2 where
        n2: "exit_results x = r' @ new2" and e2: "emitted_under (Some sec) rows new2"
        by blast
      from n1 n2 Completed have "exit_results x = results @ (new1 @ new2)"
        by simp
      moreover have "emitted_under (Some sec) (cells # rows) (new1 @ new2)"
        using e1 e2 by (auto simp add: emitted_under_def)
      ultimately show ?thesis by blast
    qed
  qed
qed

lemma emitted_under_Nil: "emitted_under label rows []"
  by (simp add: emitted_under_def split: option.splits)

lemma nothing_emitted:
  "concat (map (\<lambda>t. []) L) = [] \<and>
   list_all2 (\<lambda>(label, rows) part. emitted_under label rows part) L (map (\<lambda>t. []) L)"
  by (induction L) (auto simp add: emitted_under_Nil)

lemma scrape_labelled_parts:
  assumes "scrape_labelled E cfg d fn lcb cc L results s = (Inr out, s')"
  shows "\<exists>parts. out = results @ concat parts \<and>
           list_all2 (\<lambda>(label, rows) part. emitted_under label rows part) L parts"
  using assms
proof (induction L arbitrary: results s)
  case Nil
  then have "out = results @ concat [] \<and>
      list_all2 (\<lambda>(label, rows) part. emitted_under label rows part) [] []"
    by simp
  then show ?case by blast
next
  case (Cons t L)
  obtain label rows where t: "t = (label, rows)" by (cases t)
  show ?case
  proof (cases label)
    case None
    with t Cons.prems have "scrape_labelled E cfg d fn lcb cc L results s = (Inr out, s')"
      by simp
    from Cons.IH [OF this] obtain parts where
      p: "out = results @ concat parts"
         "list_all2 (\<lambda>(label, rows) part. emitted_under label rows part) L parts"
      by blast
    then have "out = results @ concat ([] # parts) \<and>
        list_all2 (\<lambda>(label, rows) part. emitted_under label rows part) (t # L) ([] # parts)"
      using t None by (simp add: emitted_under_def)
    then show ?thesis by blast
  next
    case (Some sec)
    obtain y s1 where r: "scrape_rows E cfg d fn lcb cc sec rows results s = (y, s1)"
      by (cases "scrape_rows E cfg d fn lcb cc sec rows results s")
    show ?thesis
    proof (cases y)
      case (Inl e)
      with r t Some Cons.prems show ?thesis by simp
    next
      case (Inr ex)
      from scrape_rows_sections [of E cfg d fn lcb cc sec rows results s ex] r Inr
      obtain new where
        n: "exit_results ex = results @ new" and e: "emitted_under (Some sec) rows new"
        by auto
      show ?thesis
      proof (cases ex)
        case (Returned r')
        with Inr r t Some Cons.prems have "out = r'" by simp
        with Returned n have "out = results @ concat (new # map (\<lambda>t. []) L)"
          using nothing_emitted [of L] by simp
        moreover have "list_all2 (\<lambda>(label, rows) part. emitted_under label rows part) (t # L)
            (new # map (\<lambda>t. []) L)"
          using nothing_emitted [of L] e t Some by simp
        ultimately show ?thesis by blast
      next
        case (Completed r')
        with Inr r t Some Cons.prems
        have "scrape_labelled E cfg d fn lcb cc L r' s1 = (Inr out, s')"
          by simp
        from Cons.IH [OF this] obtain parts where
          p: "out = r' @ concat parts"
             "list_all2 (\<lambda>(label, rows) part. emitted_under label rows part) L parts"
          by blast
        from p n Completed have "out = results @ concat (new # parts)"
          by simp
        moreover have "list_all2 (\<lambda>(label, rows) part. emitted_under label rows part) (t # L)
            (new # parts)"
          using p e t Some by simp
        ultimately show ?thesis by blast
      qed
    qed
  qed
qed
lemma OTHER_HEADING_unclassified:
  "\<not> py_in LISTED_MARKER OTHER_HEADING \<and> \<not> py_in DELETED_MARKER OTHER_HEADING"
  by (simp add: LISTED_MARKER_def DELETED_MARKER_def OTHER_HEADING_def)

lemma LISTED_MARKER_classified: "py_in LISTED_MARKER LISTED_MARKER"
  by (simp add: LISTED_MARKER_def)

lemma DELETED_MARKER_classified:
  "\<not> py_in LISTED_MARKER DELETED_MARKER \<and> py_in DELETED_MARKER DELETED_MARKER"
  by (simp add: LISTED_MARKER_def DELETED_MARKER_def)

lemma convert_empty_url: "convert_detail_url_to_pdf DEFAULT_SETTINGS [] = Inr []"
  by code_simp

lemma scrape_rows_product:
  "scrape_rows carry_env DEFAULT_SETTINGS d False True True SECTION_LISTED [product_row] results s =
     (Inr (Completed (results @ [product_record d SECTION_LISTED])), s\<lparr>polls := Suc (polls s)\<rparr>)"
proof -
  have url: "detail_base_url DEFAULT_SETTINGS @ ascii ''/ygo/pack/123/456''
      = ascii ''https://www.info.pmda.go.jp/ygo/pack/123/456''"
    by (simp add: DEFAULT_SETTINGS_def ascii_def)
  have name: "ascii ''ProductX'' \<noteq> [] \<and> ascii ''ProductX'' \<noteq> KEY_PRODUCT"
    by (simp add: ascii_def KEY_PRODUCT_def)
  show ?thesis
    by (simp add: carry_env_def product_row_def scrape_row_def check_cancel_def
        read_is_running_def url convert_scenario_url company_scenario append_row_def name
        product_record_def Let_def)
qed

lemma scrape_rows_plain:
  "scrape_rows carry_env DEFAULT_SETTINGS d False True True sec [plain_row] results s =
     (Inr (Completed (results @ [plain_record d sec])), s\<lparr>polls := Suc (polls s)\<rparr>)"
proof -
  have name: "ascii ''ProductY'' \<noteq> [] \<and> ascii ''ProductY'' \<noteq> KEY_PRODUCT"
    by (simp add: ascii_def KEY_PRODUCT_def)
  have company: "py_replace (ascii ''Beta'') MAKER_PREFIX [] = ascii ''Beta''"
    by (simp add: MAKER_PREFIX_def ascii_def py_replace.simps)
  show ?thesis
    by (simp add: carry_env_def plain_row_def scrape_row_def check_cancel_def
        read_is_running_def convert_empty_url company append_row_def name
        plain_record_def Let_def)
qed

text \<open>
  C1, as stated, fails: the section is carried over from one table to the next.  On a
  page with a heading that holds the listing marker, a table, a heading that holds
  neither marker, and a second table, the row of the second table is emitted, under the
  section of the first table, although the nearest heading before the second table
  holds neither marker.
\<close>

theorem section_carried_over_counterexample:
  "find_all_table [] carry_page =
     [([H2 LISTED_MARKER], [product_row]),
      ([H2 OTHER_HEADING, Table [product_row], H2 LISTED_MARKER], [plain_row])] \<and>
   find_previous_h2 [H2 OTHER_HEADING, Table [product_row], H2 LISTED_MARKER] = Some OTHER_HEADING \<and>
   \<not> py_in LISTED_MARKER OTHER_HEADING \<and> \<not> py_in DELETED_MARKER OTHER_HEADING \<and>
   fst (scrape_date carry_env DEFAULT_SETTINGS (ascii ''2024-01-15'') False True True empty_state) =
     Inr [product_record (ascii ''2024-01-15'') SECTION_LISTED,
          plain_record (ascii ''2024-01-15'') SECTION_LISTED]"
proof -
  have page: "listing_page carry_env url = Inr carry_page" for url
    by (simp add: carry_env_def)
  show ?thesis
    by (simp add: page carry_page_def OTHER_HEADING_unclassified LISTED_MARKER_classified
        scrape_date_def scrape_date_try_def update_section_def scrape_rows_product
        scrape_rows_plain Let_def del: scrape_rows.simps)
qed

text \<open>
  C1, amended.  The nearest preceding level-2 heading of a table is classified as listed
  when it holds the marker of the listed section, otherwise as deleted when it holds the
  marker of the deleted section, and it is unclassified otherwise; a table with no
  preceding heading has no classification.  The section of a table is the classification
  of its own nearest heading when that heading is classified; otherwise it is the section
  of the table before it, and the first table has none.  A table with no heading before
  it at all has no section.  The loop over the tables of a page scans exactly the tables
  that have a section, each under its section, and skips the others; and whenever it
  returns records, these are the records it was given followed by one group of records
  per table, where the group of a table without a section is empty and every record in
  the group of a table with a section carries that section and comes from a row of that
  table with at least three cells.
\<close>

theorem scrape_tables_section_of_table:
  "scrape_tables E cfg date_str fetch_numbers log_callback cancel_check None tables results s =
     scrape_labelled E cfg date_str fetch_numbers log_callback cancel_check
       (labelled_tables tables) results s \<and>
   (\<forall>j < length tables.
      effective_section tables j =
        (case classify_heading_spec (find_previous_h2 (fst (tables ! j))) of
           Some sec \<Rightarrow> Some sec
         | None \<Rightarrow> if j = 0 then None else effective_section tables (j - 1))) \<and>
   (\<forall>j < length (find_all_table [] nodes).
      find_previous_h2 (fst (find_all_table [] nodes ! j)) = None \<longrightarrow>
      effective_section (find_all_table [] nodes) j = None) \<and>
   (\<forall>out s'.
      scrape_tables E cfg date_str fetch_numbers log_callback cancel_check None tables results s =
        (Inr out, s') \<longrightarrow>
      (\<exists>parts. out = results @ concat parts \<and>
         list_all2 (\<lambda>(label, rows) part. emitted_under label rows part)
           (labelled_tables tables) parts))"
proof -
  have "(\<lambda>j. (case effective_section tables j of None \<Rightarrow> None | Some sec \<Rightarrow> Some sec,
              snd (tables ! j))) =
        (\<lambda>j. (effective_section tables j, snd (tables ! j)))"
    by (intro ext) (simp split: option.splits)
  with scrape_tables_labelled [of E cfg date_str fetch_numbers log_callback cancel_check None
      tables results s]
  have loop: "scrape_tables E cfg date_str fetch_numbers log_callback cancel_check None tables results s =
     scrape_labelled E cfg date_str fetch_numbers log_callback cancel_check
       (labelled_tables tables) results s"
    by (simp add: labelled_tables_def)
  have groups: "\<exists>parts. out = results @ concat parts \<and>
         list_all2 (\<lambda>(label, rows) part. emitted_under label rows part)
           (labelled_tables tables) parts"
    if "scrape_tables E cfg date_str fetch_numbers log_callback cancel_check None tables results s =
        (Inr out, s')" for out s'
    using that unfolding loop by (rule scrape_labelled_parts)
  from loop groups show ?thesis
    using effective_section_step [of _ tables] no_heading_no_section [of _ nodes]
    by blast
qed

theorem scrape_tables_section_of_table_witness:
  "labelled_tables (find_all_table [] sections_page) =
     [(None, [plain_row]), (Some SECTION_LISTED, [product_row]),
      (Some SECTION_LISTED, [plain_row]), (Some SECTION_DELETED, [plain_row])] \<and>
   find_previous_h2 (fst (find_all_table [] sections_page ! 0)) = None \<and>
   fst (scrape_tables carry_env DEFAULT_SETTINGS (ascii ''2024-01-15'') False True True None
          (find_all_table [] sections_page) [] empty_state) =
     Inr [product_record (ascii ''2024-01-15'') SECTION_LISTED,
          plain_record (ascii ''2024-01-15'') SECTION_LISTED,
          plain_record (ascii ''2024-01-15'') SECTION_DELETED] \<and>
   (\<exists>parts.
      [product_record (ascii ''2024-01-15'') SECTION_LISTED,
       plain_record (ascii ''2024-01-15'') SECTION_LISTED,
       plain_record (ascii ''2024-01-15'') SECTION_DELETED] = [] @ concat parts \<and>
      list_all2 (\<lambda>(label, rows) part. emitted_under label rows part)
        [(None, [plain_row]), (Some SECTION_LISTED, [product_row]),
         (Some SECTION_LISTED, [plain_row]), (Some SECTION_DELETED, [plain_row])] parts)"
proof -
  let ?d = "ascii ''2024-01-15''"
  let ?ts = "find_all_table [] sections_page"
  note sect =
    scrape_tables_section_of_table [of carry_env DEFAULT_SETTINGS ?d
      False True True ?ts "[]" empty_state sections_page]
  have tables: "?ts =
     [([], [plain_row]),
      ([H2 LISTED_MARKER, Table [plain_row]], [product_row]),
      ([H2 OTHER_HEADING, Table [product_row], H2 LISTED_MARKER, Table [plain_row]], [plain_row]),
      ([H2 DELETED_MARKER, Table [plain_row], H2 OTHER_HEADING, Table [product_row],
        H2 LISTED_MARKER, Table [plain_row]], [plain_row])]"
    by (simp add: sections_page_def)
  note loop = sect [THEN conjunct1]
  note step = sect [THEN conjunct2, THEN conjunct1, rule_format]
  note bare = sect [THEN conjunct2, THEN conjunct2, THEN conjunct1, rule_format]
  note groups = sect [THEN conjunct2, THEN conjunct2, THEN conjunct2, rule_format]
  have len: "length ?ts = 4"
    by (simp add: tables)
  have n0: "find_previous_h2 (fst (?ts ! 0)) = None"
    by (simp add: tables)
  have e0: "effective_section ?ts 0 = None"
    using bare [of 0] n0 len by simp
  have h1: "classify_heading_spec (find_previous_h2 (fst (?ts ! 1))) = Some SECTION_LISTED"
    by (simp add: tables classify_heading_spec_def LISTED_MARKER_classified)
  have h2: "classify_heading_spec (find_previous_h2 (fst (?ts ! 2))) = None"
    by (simp add: tables classify_heading_spec_def OTHER_HEADING_unclassified)
  have h3: "classify_heading_spec (find_previous_h2 (fst (?ts ! 3))) = Some SECTION_DELETED"
    by (simp add: tables classify_heading_spec_def DELETED_MARKER_classified)
  have e1: "effective_section ?ts 1 = Some SECTION_LISTED"
    using step [of 1] len by (simp only: h1) simp
  have e2: "effective_section ?ts 2 = Some SECTION_LISTED"
    using step [of 2] len e1 by (simp only: h2) (simp add: numeral_2_eq_2)
  have e3: "effective_section ?ts 3 = Some SECTION_DELETED"
    using step [of 3] len by (simp only: h3) simp
  have labels: "labelled_tables ?ts =
      [(None, [plain_row]), (Some SECTION_LISTED, [product_row]),
       (Some SECTION_LISTED, [plain_row]), (Some SECTION_DELETED, [plain_row])]"
  proof -
    have "[0..<length ?ts] = [0, 1, 2, 3]"
      by (simp add: tables upt_rec)
    with e0 e1 e2 e3 show ?thesis
      by (simp add: labelled_tables_def) (simp add: tables)
  qed
  let ?out = "[product_record ?d SECTION_LISTED, plain_record ?d SECTION_LISTED,
               plain_record ?d SECTION_DELETED]"
  have labelled: "scrape_labelled carry_env DEFAULT_SETTINGS ?d False True True
      (labelled_tables ?ts) [] empty_state = (Inr ?out, empty_state\<lparr>polls := 3\<rparr>)"
    unfolding labels
    by (simp add: scrape_rows_product scrape_rows_plain empty_state_def del: scrape_rows.simps)
  have run: "scrape_tables carry_env DEFAULT_SETTINGS ?d False True True None ?ts [] empty_state =
      (Inr ?out, empty_state\<lparr>polls := 3\<rparr>)"
    using loop unfolding labelled .
  from groups [OF run] have parts: "\<exists>parts. ?out = [] @ concat parts \<and>
      list_all2 (\<lambda>(label, rows) part. emitted_under label rows part) (labelled_tables ?ts) parts" .
  have "fst (scrape_tables carry_env DEFAULT_SETTINGS ?d False True True None ?ts [] empty_state) =
      Inr ?out"
    unfolding run by simp
  with labels n0 parts show ?thesis
    by (simp only:)
qed

subsection \<open>C5: the round trip through the tabular store\<close>

lemma file_lines_not_Nil: "cs \<noteq> [] \<Longrightarrow> file_lines cs \<noteq> []"
  by (cases cs) (simp_all split: list.splits)

lemma csv_read_char:
  assumes "c \<noteq> LF" and "cs \<noteq> []"
  shows "csv_read limit r (file_lines (c # cs)) =
           (case parse_process_char limit r (Some c) of
              Inl e \<Rightarrow> Inl e
            | Inr r' \<Rightarrow> csv_read limit r' (file_lines cs))"
proof -
  from assms(2) obtain l ls where "file_lines cs = l # ls"
    using file_lines_not_Nil [of cs] by (cases "file_lines cs") simp_all
  with assms(1) show ?thesis
    by (simp split: sum.splits)
qed

lemma csv_read_newline:
  "csv_read limit r (file_lines (LF # cs)) =
     (case parse_process_char limit r (Some LF) of
        Inl e \<Rightarrow> Inl e
      | Inr r1 \<Rightarrow>
          (case parse_process_char limit r1 None of
             Inl e \<Rightarrow> Inl e
           | Inr r2 \<Rightarrow>
               if pstate r2 = START_RECORD then
                 (case csv_read limit parse_reset (file_lines cs) of
                    Inl e \<Rightarrow> Inl e
                  | Inr rows \<Rightarrow> Inr (row_fields r2 # rows))
               else csv_read limit r2 (file_lines cs)))"
  by (simp split: sum.splits)

lemma csv_read_plain_chars:
  assumes "\<forall>c \<in> set xs. c \<noteq> COMMA \<and> c \<noteq> DQUOTE \<and> c \<noteq> CR \<and> c \<noteq> LF"
    and "length cur + length xs \<le> limit" and "tail \<noteq> []"
  shows "csv_read limit \<lparr> pstate = IN_FIELD, cur_field = cur, row_fields = acc \<rparr>
           (file_lines (xs @ tail)) =
         csv_read limit \<lparr> pstate = IN_FIELD, cur_field = cur @ xs, row_fields = acc \<rparr>
           (file_lines tail)"
  using assms
proof (induction xs arbitrary: cur)
  case Nil
  show ?case by simp
next
  case (Cons x xs)
  have "csv_read limit \<lparr> pstate = IN_FIELD, cur_field = cur, row_fields = acc \<rparr>
          (file_lines (x # (xs @ tail))) =
        csv_read limit \<lparr> pstate = IN_FIELD, cur_field = cur @ [x], row_fields = acc \<rparr>
          (file_lines (xs @ tail))"
    using Cons.prems by (subst csv_read_char) (simp_all add: parse_add_char_def)
  also have "\<dots> = csv_read limit
      \<lparr> pstate = IN_FIELD, cur_field = (cur @ [x]) @ xs, row_fields = acc \<rparr> (file_lines tail)"
    using Cons.prems by (intro Cons.IH) simp_all
  finally show ?case by simp
qed

lemma csv_read_quoted_chars:
  assumes "length cur + length xs \<le> limit" and "tail \<noteq> []"
  shows "csv_read limit \<lparr> pstate = IN_QUOTED_FIELD, cur_field = cur, row_fields = acc \<rparr>
           (file_lines (csv_double_quotes xs @ tail)) =
         csv_read limit \<lparr> pstate = IN_QUOTED_FIELD, cur_field = cur @ xs, row_fields = acc \<rparr>
           (file_lines tail)"
  using assms
proof (induction xs arbitrary: cur)
  case Nil
  show ?case by (simp add: csv_double_quotes_def)
next
  case (Cons x xs)
  have rest: "csv_double_quotes xs @ tail \<noteq> []"
    using Cons.prems by simp
  have step: "csv_read limit \<lparr> pstate = IN_QUOTED_FIELD, cur_field = cur, row_fields = acc \<rparr>
          (file_lines (csv_double_quotes [x] @ csv_double_quotes xs @ tail)) =
        csv_read limit \<lparr> pstate = IN_QUOTED_FIELD, cur_field = cur @ [x], row_fields = acc \<rparr>
          (file_lines (csv_double_quotes xs @ tail))"
  proof (cases "x = DQUOTE")
    case True
    have "csv_read limit \<lparr> pstate = IN_QUOTED_FIELD, cur_field = cur, row_fields = acc \<rparr>
            (file_lines (DQUOTE # DQUOTE # (csv_double_quotes xs @ tail))) =
          csv_read limit \<lparr> pstate = QUOTE_IN_QUOTED_FIELD, cur_field = cur, row_fields = acc \<rparr>
            (file_lines (DQUOTE # (csv_double_quotes xs @ tail)))"
      by (subst csv_read_char) simp_all
    also have "\<dots> =
          csv_read limit \<lparr> pstate = IN_QUOTED_FIELD, cur_field = cur @ [DQUOTE], row_fields = acc \<rparr>
            (file_lines (csv_double_quotes xs @ tail))"
      using Cons.prems rest by (subst csv_read_char) (simp_all add: parse_add_char_def)
    finally show ?thesis
      using True by (simp add: csv_double_quotes_def)
  next
    case False
    show ?thesis
    proof (cases "x = LF")
      case True
      then show ?thesis
        using Cons.prems
        by (simp add: csv_double_quotes_def csv_read_newline parse_add_char_def
            del: file_lines.simps)
    next
      case False
      with \<open>x \<noteq> DQUOTE\<close> show ?thesis
        using Cons.prems rest
        by (simp add: csv_double_quotes_def csv_read_char parse_add_char_def
            del: file_lines.simps)
    qed
  qed
  have "csv_double_quotes (x # xs) = csv_double_quotes [x] @ csv_double_quotes xs"
    by (simp add: csv_double_quotes_def)
  then have "csv_read limit \<lparr> pstate = IN_QUOTED_FIELD, cur_field = cur, row_fields = acc \<rparr>
          (file_lines (csv_double_quotes (x # xs) @ tail)) =
        csv_read limit \<lparr> pstate = IN_QUOTED_FIELD, cur_field = cur @ [x], row_fields = acc \<rparr>
          (file_lines (csv_double_quotes xs @ tail))"
    using step by simp
  also have "\<dots> = csv_read limit
      \<lparr> pstate = IN_QUOTED_FIELD, cur_field = (cur @ [x]) @ xs, row_fields = acc \<rparr>
      (file_lines tail)"
    using Cons.prems by (intro Cons.IH) simp_all
  finally show ?case by simp
qed
lemma csv_read_field:
  assumes "length f \<le> limit" and "tail \<noteq> []"
  shows "csv_read limit \<lparr> pstate = START_FIELD, cur_field = [], row_fields = acc \<rparr>
           (file_lines (csv_write_field f @ tail)) =
         csv_read limit
           \<lparr> pstate = (if csv_needs_quotes f then QUOTE_IN_QUOTED_FIELD
                       else if f = [] then START_FIELD else IN_FIELD),
             cur_field = f, row_fields = acc \<rparr>
           (file_lines tail)"
proof (cases "csv_needs_quotes f")
  case True
  have "csv_read limit \<lparr> pstate = START_FIELD, cur_field = [], row_fields = acc \<rparr>
          (file_lines (DQUOTE # (csv_double_quotes f @ DQUOTE # tail))) =
        csv_read limit \<lparr> pstate = IN_QUOTED_FIELD, cur_field = [], row_fields = acc \<rparr>
          (file_lines (csv_double_quotes f @ DQUOTE # tail))"
    by (subst csv_read_char) (simp_all add: start_field_char_def)
  also have "\<dots> =
        csv_read limit \<lparr> pstate = IN_QUOTED_FIELD, cur_field = [] @ f, row_fields = acc \<rparr>
          (file_lines (DQUOTE # tail))"
    using assms by (intro csv_read_quoted_chars) simp_all
  also have "\<dots> =
        csv_read limit \<lparr> pstate = QUOTE_IN_QUOTED_FIELD, cur_field = f, row_fields = acc \<rparr>
          (file_lines tail)"
    using assms by (subst csv_read_char) simp_all
  finally show ?thesis
    using True by (simp add: csv_write_field_def)
next
  case False
  then have plain: "\<forall>c \<in> set f. c \<noteq> COMMA \<and> c \<noteq> DQUOTE \<and> c \<noteq> CR \<and> c \<noteq> LF"
    by (auto simp add: csv_needs_quotes_def)
  show ?thesis
  proof (cases f)
    case Nil
    with False show ?thesis by (simp add: csv_write_field_def)
  next
    case (Cons x xs)
    have "csv_read limit \<lparr> pstate = START_FIELD, cur_field = [], row_fields = acc \<rparr>
            (file_lines (x # (xs @ tail))) =
          csv_read limit \<lparr> pstate = IN_FIELD, cur_field = [x], row_fields = acc \<rparr>
            (file_lines (xs @ tail))"
      using plain assms Cons
      by (subst csv_read_char) (simp_all add: start_field_char_def parse_add_char_def)
    also have "\<dots> =
          csv_read limit \<lparr> pstate = IN_FIELD, cur_field = [x] @ xs, row_fields = acc \<rparr>
            (file_lines tail)"
      using plain assms Cons by (intro csv_read_plain_chars) simp_all
    finally show ?thesis
      using False Cons by (simp add: csv_write_field_def)
  qed
qed

lemma csv_read_field_comma:
  assumes "length f \<le> limit" and "tail \<noteq> []"
  shows "csv_read limit \<lparr> pstate = START_FIELD, cur_field = [], row_fields = acc \<rparr>
           (file_lines (csv_write_field f @ COMMA # tail)) =
         csv_read limit \<lparr> pstate = START_FIELD, cur_field = [], row_fields = acc @ [f] \<rparr>
           (file_lines tail)"
proof -
  have "csv_read limit \<lparr> pstate = START_FIELD, cur_field = [], row_fields = acc \<rparr>
           (file_lines (csv_write_field f @ COMMA # tail)) =
         csv_read limit
           \<lparr> pstate = (if csv_needs_quotes f then QUOTE_IN_QUOTED_FIELD
                       else if f = [] then START_FIELD else IN_FIELD),
             cur_field = f, row_fields = acc \<rparr>
           (file_lines (COMMA # tail))"
    using assms by (intro csv_read_field) simp_all
  also have "\<dots> =
         csv_read limit \<lparr> pstate = START_FIELD, cur_field = [], row_fields = acc @ [f] \<rparr>
           (file_lines tail)"
    using assms
    by (subst csv_read_char) (simp_all add: start_field_char_def parse_save_field_def)
  finally show ?thesis .
qed

lemma csv_read_field_newline:
  assumes "length f \<le> limit"
  shows "csv_read limit \<lparr> pstate = START_FIELD, cur_field = [], row_fields = acc \<rparr>
           (file_lines (csv_write_field f @ LF # rest)) =
         (case csv_read limit parse_reset (file_lines rest) of
            Inl e \<Rightarrow> Inl e
          | Inr rows \<Rightarrow> Inr ((acc @ [f]) # rows))"
proof -
  have "csv_read limit \<lparr> pstate = START_FIELD, cur_field = [], row_fields = acc \<rparr>
           (file_lines (csv_write_field f @ LF # rest)) =
         csv_read limit
           \<lparr> pstate = (if csv_needs_quotes f then QUOTE_IN_QUOTED_FIELD
                       else if f = [] then START_FIELD else IN_FIELD),
             cur_field = f, row_fields = acc \<rparr>
           (file_lines (LF # rest))"
    using assms by (intro csv_read_field) simp_all
  also have "\<dots> =
         (case csv_read limit parse_reset (file_lines rest) of
            Inl e \<Rightarrow> Inl e
          | Inr rows \<Rightarrow> Inr ((acc @ [f]) # rows))"
    by (subst csv_read_newline)
      (simp add: start_field_char_def parse_save_field_def cong: sum.case_cong)
  finally show ?thesis .
qed

lemma csv_read_fields:
  assumes "fs \<noteq> []" and "\<forall>f \<in> set fs. length f \<le> limit"
  shows "csv_read limit \<lparr> pstate = START_FIELD, cur_field = [], row_fields = acc \<rparr>
           (file_lines (csv_join (map csv_write_field fs) @ LF # rest)) =
         (case csv_read limit parse_reset (file_lines rest) of
            Inl e \<Rightarrow> Inl e
          | Inr rows \<Rightarrow> Inr ((acc @ fs) # rows))"
  using assms
proof (induction fs arbitrary: acc)
  case Nil
  then show ?case by simp
next
  case (Cons f fs)
  show ?case
  proof (cases fs)
    case Nil
    with Cons.prems show ?thesis
      by (simp add: csv_read_field_newline cong: sum.case_cong)
  next
    case (Cons g gs)
    have "csv_read limit \<lparr> pstate = START_FIELD, cur_field = [], row_fields = acc \<rparr>
           (file_lines (csv_write_field f @ COMMA # (csv_join (map csv_write_field fs) @ LF # rest))) =
         csv_read limit \<lparr> pstate = START_FIELD, cur_field = [], row_fields = acc @ [f] \<rparr>
           (file_lines (csv_join (map csv_write_field fs) @ LF # rest))"
      using Cons.prems by (intro csv_read_field_comma) simp_all
    also have "\<dots> =
         (case csv_read limit parse_reset (file_lines rest) of
            Inl e \<Rightarrow> Inl e
          | Inr rows \<Rightarrow> Inr (((acc @ [f]) @ fs) # rows))"
      using Cons.prems Cons by (intro Cons.IH) simp_all
    finally show ?thesis
      using Cons by (simp cong: sum.case_cong)
  qed
qed

lemma csv_write_field_head:
  "csv_write_field f @ COMMA # tail = c # cs \<Longrightarrow> c \<noteq> LF \<and> c \<noteq> CR"
  by (cases f) (auto simp add: csv_write_field_def csv_needs_quotes_def split: if_splits)

lemma csv_read_start:
  assumes "c \<noteq> LF" and "c \<noteq> CR" and "cs \<noteq> []"
  shows "csv_read limit parse_reset (file_lines (c # cs)) =
         csv_read limit \<lparr> pstate = START_FIELD, cur_field = [], row_fields = [] \<rparr>
           (file_lines (c # cs))"
  using assms by (simp add: csv_read_char parse_reset_def del: file_lines.simps)

lemma csv_read_row:
  assumes "2 \<le> length row" and "\<forall>f \<in> set row. length f \<le> limit"
  shows "csv_read limit parse_reset (file_lines (csv_join (map csv_write_field row) @ LF # rest)) =
         (case csv_read limit parse_reset (file_lines rest) of
            Inl e \<Rightarrow> Inl e
          | Inr rows \<Rightarrow> Inr (row # rows))"
proof -
  from assms(1) obtain f g gs where row: "row = f # g # gs"
    by (cases row; cases "tl row") auto
  let ?tail = "csv_join (map csv_write_field (g # gs)) @ LF # rest"
  let ?text = "csv_join (map csv_write_field row) @ LF # rest"
  have shape: "?text = csv_write_field f @ COMMA # ?tail"
    by (simp add: row)
  obtain c cs where headed: "csv_write_field f @ COMMA # ?tail = c # cs"
    by (cases "csv_write_field f @ COMMA # ?tail") simp_all
  from csv_write_field_head [OF headed] have c: "c \<noteq> LF" "c \<noteq> CR"
    by simp_all
  have cs: "cs \<noteq> []"
    using headed by (cases "csv_write_field f") auto
  have "csv_read limit parse_reset (file_lines ?text) =
        csv_read limit \<lparr> pstate = START_FIELD, cur_field = [], row_fields = [] \<rparr> (file_lines ?text)"
    unfolding shape headed using c cs by (rule csv_read_start)
  also have "\<dots> =
         (case csv_read limit parse_reset (file_lines rest) of
            Inl e \<Rightarrow> Inl e
          | Inr rows \<Rightarrow> Inr (([] @ row) # rows))"
    using assms row by (intro csv_read_fields) auto
  finally show ?thesis by (simp cong: sum.case_cong)
qed

lemma csv_read_rows:
  assumes "\<forall>row \<in> set rows. 2 \<le> length row \<and> (\<forall>f \<in> set row. length f \<le> limit)"
  shows "csv_read limit parse_reset
           (file_lines (concat (map (\<lambda>row. csv_join (map csv_write_field row) @ [LF]) rows))) =
         Inr rows"
  using assms
proof (induction rows)
  case Nil
  show ?case by (simp add: parse_reset_def)
next
  case (Cons row rows)
  have "csv_read limit parse_reset
          (file_lines (csv_join (map csv_write_field row) @ LF #
             concat (map (\<lambda>row. csv_join (map csv_write_field row) @ [LF]) rows))) =
        (case csv_read limit parse_reset
                (file_lines (concat (map (\<lambda>row. csv_join (map csv_write_field row) @ [LF]) rows))) of
            Inl e \<Rightarrow> Inl e
          | Inr rest \<Rightarrow> Inr (row # rest))"
    using Cons.prems by (intro csv_read_row) simp_all
  with Cons show ?case by (simp cong: sum.case_cong)
qed

lemma universal_newlines_line:
  "CR \<notin> set body \<Longrightarrow>
     universal_newlines (body @ CR # LF # rest) = body @ LF # universal_newlines rest"
proof (induction body)
  case Nil
  show ?case by simp
next
  case (Cons c cs)
  obtain d ds where "cs @ CR # LF # rest = d # ds"
    by (cases "cs @ CR # LF # rest") simp_all
  with Cons show ?case by simp
qed

lemma csv_write_field_chars: "set (csv_write_field f) \<subseteq> insert DQUOTE (set f)"
  by (auto simp add: csv_write_field_def csv_double_quotes_def split: if_splits)

lemma csv_join_chars: "set (csv_join fs) \<subseteq> insert COMMA (\<Union> (set ` set fs))"
  by (induction fs rule: csv_join.induct) auto

lemma row_text_no_CR:
  assumes "\<forall>f \<in> set row. CR \<notin> set f"
  shows "CR \<notin> set (csv_join (map csv_write_field row))"
proof
  assume "CR \<in> set (csv_join (map csv_write_field row))"
  with csv_join_chars [of "map csv_write_field row"]
  obtain f where "f \<in> set row" "CR \<in> set (csv_write_field f)"
    by auto
  with csv_write_field_chars [of f] assms show False
    by auto
qed

lemma universal_newlines_rows:
  assumes "\<forall>row \<in> set rows. row \<noteq> [[]] \<and> (\<forall>f \<in> set row. CR \<notin> set f)"
  shows "universal_newlines (concat (map csv_writerow rows)) =
         concat (map (\<lambda>row. csv_join (map csv_write_field row) @ [LF]) rows)"
  using assms
proof (induction rows)
  case Nil
  show ?case by simp
next
  case (Cons row rows)
  then have "CR \<notin> set (csv_join (map csv_write_field row))"
    by (intro row_text_no_CR) simp
  from universal_newlines_line [OF this] Cons show ?case
    by (simp add: csv_writerow_def)
qed
lemma csv_read_field_too_long:
  assumes "\<forall>c \<in> set f. c \<noteq> COMMA \<and> c \<noteq> DQUOTE \<and> c \<noteq> CR \<and> c \<noteq> LF"
    and "limit < length f" and "tail \<noteq> []"
  shows "csv_read limit \<lparr> pstate = START_FIELD, cur_field = [], row_fields = acc \<rparr>
           (file_lines (f @ tail)) =
         Inl (CsvError, ascii ''field larger than field limit'')"
proof -
  from assms(2) obtain x xs where over: "drop limit f = x # xs"
    by (cases "drop limit f") simp_all
  have f: "f = take limit f @ x # xs"
    using over by (metis append_take_drop_id)
  have x: "x \<noteq> COMMA \<and> x \<noteq> DQUOTE \<and> x \<noteq> CR \<and> x \<noteq> LF"
    using assms(1) f by (metis in_set_conv_decomp)
  have more: "xs @ tail \<noteq> []"
    using assms(3) by simp
  show ?thesis
  proof (cases "take limit f")
    case Nil
    with assms(2) have "limit = 0" by (cases f) auto
    have "csv_read limit \<lparr> pstate = START_FIELD, cur_field = [], row_fields = acc \<rparr>
            (file_lines (x # (xs @ tail))) = Inl (CsvError, ascii ''field larger than field limit'')"
      using x more \<open>limit = 0\<close>
      by (subst csv_read_char) (simp_all add: start_field_char_def parse_add_char_def)
    with f Nil show ?thesis by (metis append_Cons append_Nil append_assoc)
  next
    case (Cons y ys)
    have plain: "\<forall>c \<in> set (y # ys). c \<noteq> COMMA \<and> c \<noteq> DQUOTE \<and> c \<noteq> CR \<and> c \<noteq> LF"
      using assms(1) Cons by (metis in_set_takeD)
    have len: "length (y # ys) = limit"
      using assms(2) Cons by (metis length_take min.absorb2 less_imp_le)
    have "csv_read limit \<lparr> pstate = START_FIELD, cur_field = [], row_fields = acc \<rparr>
            (file_lines (y # (ys @ x # xs @ tail))) =
          csv_read limit \<lparr> pstate = IN_FIELD, cur_field = [y], row_fields = acc \<rparr>
            (file_lines (ys @ x # xs @ tail))"
      using plain len
      by (subst csv_read_char) (simp_all add: start_field_char_def parse_add_char_def)
    also have "\<dots> =
          csv_read limit \<lparr> pstate = IN_FIELD, cur_field = [y] @ ys, row_fields = acc \<rparr>
            (file_lines (x # xs @ tail))"
      using plain len by (intro csv_read_plain_chars) simp_all
    also have "\<dots> = Inl (CsvError, ascii ''field larger than field limit'')"
      using x more len
      by (subst csv_read_char) (simp_all add: parse_add_char_def)
    finally have "csv_read limit \<lparr> pstate = START_FIELD, cur_field = [], row_fields = acc \<rparr>
            (file_lines ((y # ys) @ x # xs @ tail)) =
          Inl (CsvError, ascii ''field larger than field limit'')"
      by simp
    with f Cons show ?thesis by (metis append_Cons append_assoc)
  qed
qed

lemma fieldnames_storable:
  "length fieldnames = 9 \<and> distinct fieldnames \<and> (\<forall>f \<in> set fieldnames. storable f)"
  by (simp add: fieldnames_def KEY_DATE_def KEY_SECTION_def KEY_PRODUCT_def KEY_COMPANY_def
      KEY_REASON_def KEY_APPROVAL_def KEY_CERTIFICATION_def KEY_DETAIL_URL_def KEY_PDF_URL_def
      storable_def encodable_def field_size_limit_def ascii_def)

lemma length_listing_row: "length (listing_row r) = 9"
  by (simp add: listing_row_def)

lemma csv_writerow_encodable:
  assumes "\<forall>f \<in> set row. list_all encodable f"
  shows "list_all encodable (csv_writerow row)"
proof -
  have marks: "encodable DQUOTE \<and> encodable COMMA \<and> encodable CR \<and> encodable LF"
    by (simp add: encodable_def)
  have "encodable c" if "c \<in> set (csv_join (map csv_write_field row))" for c
  proof -
    from that csv_join_chars [of "map csv_write_field row"]
    have "c = COMMA \<or> (\<exists>f \<in> set row. c \<in> set (csv_write_field f))"
      by auto
    with csv_write_field_chars have "c = COMMA \<or> c = DQUOTE \<or> (\<exists>f \<in> set row. c \<in> set f)"
      by blast
    with assms marks show ?thesis
      by (auto simp add: list_all_iff)
  qed
  with marks show ?thesis
    by (auto simp add: csv_writerow_def list_all_iff)
qed

lemma DictReader_listing_row: "DictReader_row fieldnames (listing_row r) = listing_dict r"
  by (simp add: DictReader_row_def listing_row_def listing_dict_def fieldnames_def
      KEY_DATE_def KEY_SECTION_def KEY_PRODUCT_def KEY_COMPANY_def
      KEY_REASON_def KEY_APPROVAL_def KEY_CERTIFICATION_def KEY_DETAIL_URL_def KEY_PDF_URL_def
      ascii_def)

lemma dict_listing_inverse: "dict_listing (listing_dict r) = r"
  by (simp add: dict_listing_def cell_str_def dict_get_def listing_row_def listing_dict_def
      fieldnames_def
      KEY_DATE_def KEY_SECTION_def KEY_PRODUCT_def KEY_COMPANY_def
      KEY_REASON_def KEY_APPROVAL_def KEY_CERTIFICATION_def KEY_DETAIL_URL_def KEY_PDF_URL_def
      ascii_def)

lemma save_results_file:
  assumes "open_write_error E (os_path_join out_dir (CSV_FILENAME_PREFIX @ ts @ ascii ''.csv'')) = None"
    and "\<forall>r \<in> set results. \<forall>f \<in> set (listing_row r). list_all encodable f"
  shows "fst (save_results E ts results out_dir s) =
           Inr (os_path_join out_dir (CSV_FILENAME_PREFIX @ ts @ ascii ''.csv'')) \<and>
         files (snd (save_results E ts results out_dir s))
             (os_path_join out_dir (CSV_FILENAME_PREFIX @ ts @ ascii ''.csv'')) =
           Some (BOM # concat (map csv_writerow (fieldnames # map listing_row results)))"
proof -
  let ?lines = "csv_writerow fieldnames # map (\<lambda>r. csv_writerow (listing_row r)) results"
  have "list_all encodable (csv_writerow fieldnames)"
    using fieldnames_storable by (intro csv_writerow_encodable) (simp add: storable_def)
  moreover have "list_all encodable (csv_writerow (listing_row r))" if "r \<in> set results" for r
    using assms(2) that by (intro csv_writerow_encodable) simp
  ultimately have all: "list_all (list_all encodable) ?lines"
    by (simp add: list_all_iff)
  have whole: "takeWhile (list_all encodable) (map (\<lambda>r. csv_writerow (listing_row r)) results) =
      map (\<lambda>r. csv_writerow (listing_row r)) results"
    using all by (simp add: takeWhile_eq_all_conv list_all_iff)
  from all assms(1) show ?thesis
    by (simp add: save_results_def Let_def add_log_def o_def whole)
qed

lemma read_back:
  assumes "files s path = Some (BOM # concat (map csv_writerow (fieldnames # map listing_row results)))"
    and "\<forall>r \<in> set results. \<forall>f \<in> set (listing_row r). CR \<notin> set f \<and> length f \<le> field_size_limit"
  shows "read_dict_rows s path = Inr (map listing_dict results)"
proof -
  let ?rows = "fieldnames # map listing_row results"
  have nine: "\<forall>row \<in> set ?rows. length row = 9"
    using fieldnames_storable by (auto simp add: length_listing_row)
  have fields: "\<forall>row \<in> set ?rows. \<forall>f \<in> set row. CR \<notin> set f \<and> length f \<le> field_size_limit"
    using fieldnames_storable assms(2) by (auto simp add: storable_def)
  have clean: "\<forall>row \<in> set ?rows. row \<noteq> [[]] \<and> (\<forall>f \<in> set row. CR \<notin> set f)"
  proof
    fix row
    assume row: "row \<in> set ?rows"
    with nine have "length row = 9" by blast
    then have "row \<noteq> [[]]" by auto
    with fields row show "row \<noteq> [[]] \<and> (\<forall>f \<in> set row. CR \<notin> set f)" by blast
  qed
  have short: "\<forall>row \<in> set ?rows. 2 \<le> length row \<and> (\<forall>f \<in> set row. length f \<le> field_size_limit)"
  proof
    fix row
    assume row: "row \<in> set ?rows"
    with nine have "length row = 9" by blast
    then have "2 \<le> length row" by simp
    with fields row show "2 \<le> length row \<and> (\<forall>f \<in> set row. length f \<le> field_size_limit)"
      by blast
  qed
  have "open_read s path =
      Inr (file_lines (concat (map (\<lambda>row. csv_join (map csv_write_field row) @ [LF]) ?rows)))"
    using universal_newlines_rows [OF clean]
    by (simp only: open_read_def assms(1) decode_utf_8_sig_def) simp
  moreover have "csv_reader
      (file_lines (concat (map (\<lambda>row. csv_join (map csv_write_field row) @ [LF]) ?rows))) =
      Inr ?rows"
    unfolding csv_reader_def using short by (rule csv_read_rows)
  moreover have "filter (\<lambda>r. r \<noteq> []) (map listing_row results) = map listing_row results"
    by (simp add: filter_id_conv listing_row_def)
  ultimately show ?thesis
    by (simp add: read_dict_rows_def DictReader_def DictReader_listing_row o_def)
qed
lemma fieldnames_not_blank: "fieldnames \<noteq> [[]]"
  by (simp add: fieldnames_def)

lemma header_line:
  "csv_writerow fieldnames = csv_join (map csv_write_field fieldnames) @ [CR, LF] \<and>
   CR \<notin> set (csv_join (map csv_write_field fieldnames))"
proof -
  have "fieldnames \<noteq> [[]]"
    by (rule fieldnames_not_blank)
  moreover have "CR \<notin> set (csv_join (map csv_write_field fieldnames))"
    using fieldnames_storable by (intro row_text_no_CR) (simp add: storable_def)
  ultimately show ?thesis
    by (simp add: csv_writerow_def)
qed

lemma header_read:
  "csv_read field_size_limit parse_reset
     (file_lines (csv_join (map csv_write_field fieldnames) @ LF # rest)) =
   (case csv_read field_size_limit parse_reset (file_lines rest) of
      Inl e \<Rightarrow> Inl e
    | Inr rows \<Rightarrow> Inr (fieldnames # rows))"
  using fieldnames_storable by (intro csv_read_row) (simp_all add: storable_def)

lemma oversized_line:
  "csv_read field_size_limit parse_reset
     (file_lines (csv_join (map csv_write_field (listing_row oversized_record)) @ [LF])) =
   Inl (CsvError, ascii ''field larger than field limit'')"
proof -
  let ?f = "replicate (Suc field_size_limit) (65::nat)"
  obtain tail where line: "csv_join (map csv_write_field (listing_row oversized_record)) @ [LF] =
      ?f @ COMMA # tail"
    by (simp add: listing_row_def oversized_record_def cr_record_def csv_write_field_def
        csv_needs_quotes_def)
  have "csv_read field_size_limit parse_reset
          (file_lines (65 # (replicate field_size_limit 65 @ COMMA # tail))) =
        csv_read field_size_limit \<lparr> pstate = START_FIELD, cur_field = [], row_fields = [] \<rparr>
          (file_lines (65 # (replicate field_size_limit 65 @ COMMA # tail)))"
    by (rule csv_read_start) simp_all
  moreover have "csv_read field_size_limit
        \<lparr> pstate = START_FIELD, cur_field = [], row_fields = [] \<rparr> (file_lines (?f @ COMMA # tail)) =
      Inl (CsvError, ascii ''field larger than field limit'')"
    by (rule csv_read_field_too_long) simp_all
  ultimately show ?thesis
    unfolding line by simp
qed

text \<open>
  C5, as stated, fails.  A record whose reason is \<open>a\rb\<close> is written as it is, but the
  table is read back through a file opened without \<open>newline=''\<close>, and the reason comes
  back as \<open>a\nb\<close>.  A record with a field of 131073 characters is written, and reading
  the table back raises the error of the \<open>csv\<close> module for a field beyond its limit.
\<close>

theorem round_trip_counterexample:
  "fst (save_results store_env (ascii ''20240115'') [cr_record] (ascii ''out'') empty_state) =
     Inr (ascii ''out/pmda_list_20240115.csv'') \<and>
   read_dict_rows
       (snd (save_results store_env (ascii ''20240115'') [cr_record] (ascii ''out'') empty_state))
       (ascii ''out/pmda_list_20240115.csv'') = Inr [listing_dict lf_record] \<and>
   l_reason cr_record = [97, CR, 98] \<and>
   cell_str (listing_dict lf_record) KEY_REASON = [97, LF, 98] \<and>
   fst (save_results store_env (ascii ''20240115'') [oversized_record] (ascii ''out'') empty_state) =
     Inr (ascii ''out/pmda_list_20240115.csv'') \<and>
   read_dict_rows
       (snd (save_results store_env (ascii ''20240115'') [oversized_record] (ascii ''out'')
               empty_state))
       (ascii ''out/pmda_list_20240115.csv'') =
     Inl (CsvError, ascii ''field larger than field limit'')"
proof -
  let ?path = "os_path_join (ascii ''out'') (CSV_FILENAME_PREFIX @ ascii ''20240115'' @ ascii ''.csv'')"
  have path: "?path = ascii ''out/pmda_list_20240115.csv''"
    by (simp add: os_path_join_def CSV_FILENAME_PREFIX_def ascii_def)
  have writable: "open_write_error store_env ?path = None"
    by (simp add: store_env_def)
  have cr_enc: "\<forall>r \<in> set [cr_record]. \<forall>f \<in> set (listing_row r). list_all encodable f"
    by (simp add: listing_row_def cr_record_def encodable_def ascii_def SECTION_LISTED_def)
  have big_enc: "\<forall>r \<in> set [oversized_record]. \<forall>f \<in> set (listing_row r). list_all encodable f"
    by (simp add: listing_row_def oversized_record_def cr_record_def encodable_def ascii_def
        SECTION_LISTED_def list_all_iff)
  note cr_file = save_results_file [OF writable cr_enc, where s = empty_state, unfolded path]
  note big_file = save_results_file [OF writable big_enc, where s = empty_state, unfolded path]
  have cr_line: "universal_newlines (csv_writerow (listing_row cr_record)) =
      csv_join (map csv_write_field (listing_row lf_record)) @ [LF]"
    by (simp add: csv_writerow_def listing_row_def cr_record_def lf_record_def csv_write_field_def
        csv_needs_quotes_def csv_double_quotes_def ascii_def SECTION_LISTED_def)
  have cr_text: "universal_newlines (concat (map csv_writerow [fieldnames, listing_row cr_record])) =
      csv_join (map csv_write_field fieldnames) @ LF #
        concat (map (\<lambda>row. csv_join (map csv_write_field row) @ [LF]) [listing_row lf_record])"
    using header_line universal_newlines_line [of "csv_join (map csv_write_field fieldnames)"
        "csv_writerow (listing_row cr_record)"] cr_line
    by simp
  have lf_rows: "csv_read field_size_limit parse_reset
      (file_lines (concat (map (\<lambda>row. csv_join (map csv_write_field row) @ [LF])
         [listing_row lf_record]))) = Inr [listing_row lf_record]"
    by (rule csv_read_rows)
      (simp add: listing_row_def lf_record_def cr_record_def field_size_limit_def ascii_def
        SECTION_LISTED_def)
  have cr_lines: "open_read
       (snd (save_results store_env (ascii ''20240115'') [cr_record] (ascii ''out'') empty_state))
       (ascii ''out/pmda_list_20240115.csv'') =
     Inr (file_lines (csv_join (map csv_write_field fieldnames) @ LF #
        concat (map (\<lambda>row. csv_join (map csv_write_field row) @ [LF]) [listing_row lf_record])))"
    using cr_file cr_text by (simp add: open_read_def decode_utf_8_sig_def)
  have cr_records: "csv_reader (file_lines (csv_join (map csv_write_field fieldnames) @ LF #
        concat (map (\<lambda>row. csv_join (map csv_write_field row) @ [LF]) [listing_row lf_record]))) =
      Inr [fieldnames, listing_row lf_record]"
    unfolding csv_reader_def header_read lf_rows by simp
  have cr_read: "read_dict_rows
       (snd (save_results store_env (ascii ''20240115'') [cr_record] (ascii ''out'') empty_state))
       (ascii ''out/pmda_list_20240115.csv'') = Inr [listing_dict lf_record]"
  proof -
    have "listing_row lf_record \<noteq> []"
      by (simp add: listing_row_def)
    then have "snd (DictReader [fieldnames, listing_row lf_record]) = [listing_dict lf_record]"
      by (simp add: DictReader_def DictReader_listing_row)
    then show ?thesis
      by (simp only: read_dict_rows_def cr_lines sum.case cr_records)
  qed
  have big_clean: "\<forall>row \<in> set [fieldnames, listing_row oversized_record].
      row \<noteq> [[]] \<and> (\<forall>f \<in> set row. CR \<notin> set f)"
    using fieldnames_storable fieldnames_not_blank
    by (auto simp add: storable_def listing_row_def oversized_record_def cr_record_def ascii_def
        SECTION_LISTED_def)
  have big_lines: "open_read
       (snd (save_results store_env (ascii ''20240115'') [oversized_record] (ascii ''out'')
               empty_state))
       (ascii ''out/pmda_list_20240115.csv'') =
     Inr (file_lines (csv_join (map csv_write_field fieldnames) @ LF #
        (csv_join (map csv_write_field (listing_row oversized_record)) @ [LF])))"
    using big_file universal_newlines_rows [OF big_clean]
    by (simp add: open_read_def decode_utf_8_sig_def)
  have big_records: "csv_reader (file_lines (csv_join (map csv_write_field fieldnames) @ LF #
        (csv_join (map csv_write_field (listing_row oversized_record)) @ [LF]))) =
      Inl (CsvError, ascii ''field larger than field limit'')"
    unfolding csv_reader_def header_read oversized_line by simp
  have big_read: "read_dict_rows
       (snd (save_results store_env (ascii ''20240115'') [oversized_record] (ascii ''out'')
               empty_state))
       (ascii ''out/pmda_list_20240115.csv'') =
     Inl (CsvError, ascii ''field larger than field limit'')"
    by (simp only: read_dict_rows_def big_lines sum.case big_records)
  have reason: "cell_str (listing_dict lf_record) KEY_REASON = [97, LF, 98]"
    using dict_listing_inverse [of lf_record, THEN arg_cong, of l_reason]
    by (simp add: dict_listing_def lf_record_def)
  from cr_file big_file cr_read big_read reason show ?thesis
    by (simp add: cr_record_def)
qed
text \<open>
  C5, amended: when the file can be opened for writing and every field of every record
  holds no carriage return, can be encoded in UTF-8 and is at most 131072 characters
  long, writing the records through the tabular store succeeds, and reading the file
  back as the download orchestrator reads it yields, in order, the rows of the records:
  each row holds the nine fields of its record under the nine column names, so that
  the records read back are equal to the originals on all nine fields.  For zero
  records the file holds the byte order mark and the header row alone.
\<close>

theorem save_results_round_trip:
  assumes "open_write_error E (os_path_join out_dir (CSV_FILENAME_PREFIX @ ts @ ascii ''.csv'')) = None"
    and "\<forall>r \<in> set results. \<forall>f \<in> set (listing_row r). storable f"
  shows "fst (save_results E ts results out_dir s) =
           Inr (os_path_join out_dir (CSV_FILENAME_PREFIX @ ts @ ascii ''.csv'')) \<and>
         read_dict_rows (snd (save_results E ts results out_dir s))
             (os_path_join out_dir (CSV_FILENAME_PREFIX @ ts @ ascii ''.csv'')) =
           Inr (map listing_dict results) \<and>
         map dict_listing (map listing_dict results) = results \<and>
         (results = [] \<longrightarrow>
            files (snd (save_results E ts results out_dir s))
                (os_path_join out_dir (CSV_FILENAME_PREFIX @ ts @ ascii ''.csv'')) =
              Some (BOM # csv_writerow fieldnames))"
proof -
  have enc: "\<forall>r \<in> set results. \<forall>f \<in> set (listing_row r). list_all encodable f"
    using assms(2) by (simp add: storable_def)
  have fit: "\<forall>r \<in> set results. \<forall>f \<in> set (listing_row r). CR \<notin> set f \<and> length f \<le> field_size_limit"
    using assms(2) by (simp add: storable_def)
  note written = save_results_file [OF assms(1) enc, where s = s]
  from written have content: "files (snd (save_results E ts results out_dir s))
      (os_path_join out_dir (CSV_FILENAME_PREFIX @ ts @ ascii ''.csv'')) =
      Some (BOM # concat (map csv_writerow (fieldnames # map listing_row results)))"
    by (rule conjunct2)
  have reread: "read_dict_rows (snd (save_results E ts results out_dir s))
      (os_path_join out_dir (CSV_FILENAME_PREFIX @ ts @ ascii ''.csv'')) =
      Inr (map listing_dict results)"
    using content fit by (rule read_back)
  have same: "map dict_listing (map listing_dict results) = results"
    by (simp add: dict_listing_inverse o_def)
  have none: "results = [] \<longrightarrow>
      files (snd (save_results E ts results out_dir s))
          (os_path_join out_dir (CSV_FILENAME_PREFIX @ ts @ ascii ''.csv'')) =
        Some (BOM # csv_writerow fieldnames)"
  proof
    assume "results = []"
    with content show "files (snd (save_results E ts results out_dir s))
          (os_path_join out_dir (CSV_FILENAME_PREFIX @ ts @ ascii ''.csv'')) =
        Some (BOM # csv_writerow fieldnames)"
      by simp
  qed
  from written [THEN conjunct1] reread same none show ?thesis
    by (intro conjI)
qed

theorem save_results_round_trip_witness:
  "fst (save_results store_env (ascii ''20240115'') [tricky_record] (ascii ''out'') empty_state) =
     Inr (ascii ''out/pmda_list_20240115.csv'') \<and>
   read_dict_rows
       (snd (save_results store_env (ascii ''20240115'') [tricky_record] (ascii ''out'') empty_state))
       (ascii ''out/pmda_list_20240115.csv'') = Inr [listing_dict tricky_record] \<and>
   map dict_listing [listing_dict tricky_record] = [tricky_record] \<and>
   read_dict_rows
       (snd (save_results store_env (ascii ''20240115'') [] (ascii ''out'') empty_state))
       (ascii ''out/pmda_list_20240115.csv'') = Inr [] \<and>
   files (snd (save_results store_env (ascii ''20240115'') [] (ascii ''out'') empty_state))
       (ascii ''out/pmda_list_20240115.csv'') = Some (BOM # csv_writerow fieldnames)"
proof -
  let ?path = "os_path_join (ascii ''out'') (CSV_FILENAME_PREFIX @ ascii ''20240115'' @ ascii ''.csv'')"
  have path: "?path = ascii ''out/pmda_list_20240115.csv''"
    by (simp add: os_path_join_def CSV_FILENAME_PREFIX_def ascii_def)
  have writable: "open_write_error store_env ?path = None"
    by (simp add: store_env_def)
  have fields: "\<forall>r \<in> set [tricky_record]. \<forall>f \<in> set (listing_row r). storable f"
    by (simp add: listing_row_def tricky_record_def storable_def encodable_def
        field_size_limit_def ascii_def SECTION_LISTED_def)
  note one = save_results_round_trip [OF writable fields, where s = empty_state, unfolded path]
  from save_results_round_trip [where results = "[]" and s = empty_state, OF writable]
  have zero: "read_dict_rows
       (snd (save_results store_env (ascii ''20240115'') [] (ascii ''out'') empty_state)) ?path =
         Inr [] \<and>
       files (snd (save_results store_env (ascii ''20240115'') [] (ascii ''out'') empty_state))
         ?path = Some (BOM # csv_writerow fieldnames)"
    by simp
  from one zero [unfolded path] show ?thesis
    by simp
qed

end
